theory Spec2Isabelle
  imports Main "HOL-Library.Sublist" "HOL-Library.Multiset"
begin

section \<open>JavaScript values\<close>

text \<open>
  The action (\<^verbatim>\<open>src/index.js\<close>) works on values that arrive as parsed JSON: the body of
  the validation response and the webhook payload. \<open>jsval\<close> is the universe of those
  values, with \<open>Undefined\<close> for what a missing property reads as.

  \<^item> \<open>Num n\<close> is a JavaScript number that is an integer and prints in decimal (the counts
    and line numbers of the payload); fractions, and integers so large that they print
    with an exponent, are not values of the model.
  \<^item> \<open>Str s\<close> holds the UTF-8 bytes of the string (a JSON string, once decoded, with no
    lone surrogate).
  \<^item> \<open>Obj kvs\<close> lists the own properties of an object in the order \<^verbatim>\<open>Object.keys\<close>
    enumerates them; a property is looked up by its first entry. Its values are data,
    never functions: an own property named \<^verbatim>\<open>toString\<close> hides the method of
    \<^verbatim>\<open>Object.prototype\<close>, and the object can then not be converted to a string or a number.
\<close>

datatype jsval =
    Undefined
  | Null
  | Bool bool
  | Num int
  | Str string
  | Arr "jsval list"
  | Obj "(string \<times> jsval) list"

text \<open>\<^verbatim>\<open>v === undefined || v === null\<close>: what \<^verbatim>\<open>?.\<close> tests and what a property read throws on.\<close>

fun nullish :: "jsval \<Rightarrow> bool" where
  "nullish Undefined = True"
| "nullish Null = True"
| "nullish _ = False"

text \<open>ToBoolean: the test of \<^verbatim>\<open>if\<close>, \<^verbatim>\<open>!\<close>, \<^verbatim>\<open>&&\<close>, \<^verbatim>\<open>||\<close> and \<^verbatim>\<open>? :\<close>.\<close>

fun truthy :: "jsval \<Rightarrow> bool" where
  "truthy Undefined = False"
| "truthy Null = False"
| "truthy (Bool b) = b"
| "truthy (Num n) = (n \<noteq> 0)"
| "truthy (Str s) = (s \<noteq> [])"
| "truthy (Arr xs) = True"
| "truthy (Obj kvs) = True"

text \<open>\<^verbatim>\<open>a || b\<close>.\<close>

definition js_or :: "jsval \<Rightarrow> jsval \<Rightarrow> jsval" where
  "js_or a b = (if truthy a then a else b)"

text \<open>\<^verbatim>\<open>typeof v === 'object'\<close>: true of null, arrays and objects.\<close>

fun typeof_object :: "jsval \<Rightarrow> bool" where
  "typeof_object Null = True"
| "typeof_object (Arr xs) = True"
| "typeof_object (Obj kvs) = True"
| "typeof_object _ = False"

subsection \<open>Strings\<close>

definition nl :: string where
  "nl = [CHR 0x0A]"

text \<open>The length of a string in UTF-16 code units, from its UTF-8 bytes: one unit per
  code point and one more for each code point outside the basic plane (a four-byte
  sequence).\<close>

definition utf16_length :: "string \<Rightarrow> nat" where
  "utf16_length s =
     length (filter (\<lambda>c. \<not> ((0x80::nat) \<le> of_char c \<and> (of_char c :: nat) < 0xC0)) s)
     + length (filter (\<lambda>c. (0xF0::nat) \<le> of_char c) s)"

definition digit_char :: "nat \<Rightarrow> char" where
  "digit_char d = ''0123456789'' ! d"

fun show_nat :: "nat \<Rightarrow> string" where
  "show_nat n = (if n < 10 then [digit_char n] else show_nat (n div 10) @ [digit_char (n mod 10)])"

declare show_nat.simps [simp del]

definition show_int :: "int \<Rightarrow> string" where
  "show_int i = (if i < 0 then ''-'' @ show_nat (nat (- i)) else show_nat (nat i))"

text \<open>\<^verbatim>\<open>parts.join(sep)\<close> on strings.\<close>

fun join_with :: "string \<Rightarrow> string list \<Rightarrow> string" where
  "join_with sep [] = []"
| "join_with sep [x] = x"
| "join_with sep (x # y # zs) = x @ sep @ join_with sep (y # zs)"

subsection \<open>Exceptions\<close>

text \<open>A thrown error, as the two \<^verbatim>\<open>catch\<close> blocks read it: its \<^verbatim>\<open>message\<close>, and the
  \<^verbatim>\<open>status\<close> (the number of an HTTP response) and \<^verbatim>\<open>data\<close> of its \<^verbatim>\<open>response\<close> when it
  has one (an HTTP client error).\<close>

record exn =
  message :: string
  response :: "(int \<times> jsval) option"

text \<open>\<^verbatim>\<open>new Error(m)\<close> and the engine's \<^verbatim>\<open>TypeError\<close>s: no \<^verbatim>\<open>response\<close>.\<close>

definition js_error :: "string \<Rightarrow> exn" where
  "js_error m = \<lparr>message = m, response = None\<rparr>"

definition bind_exn :: "exn + 'a \<Rightarrow> ('a \<Rightarrow> exn + 'b) \<Rightarrow> exn + 'b" where
  "bind_exn m f = (case m of Inl e \<Rightarrow> Inl e | Inr a \<Rightarrow> f a)"

subsection \<open>Conversion to a string\<close>

text \<open>ToString, as a template literal and \<^verbatim>\<open>join\<close> apply it. An array prints its elements
  joined by commas, a nullish element as the empty string. An object prints as
  \<^verbatim>\<open>[object Object]\<close> through the method of \<^verbatim>\<open>Object.prototype\<close>; when it has an own property
  \<^verbatim>\<open>toString\<close> (data, not callable) no method converts it and the conversion throws a
  \<^verbatim>\<open>TypeError\<close> (the message is the engine's). \<open>strings_of\<close> converts the elements of an
  array in order and throws at the first that does.\<close>

fun to_string :: "jsval \<Rightarrow> exn + string"
  and strings_of :: "jsval list \<Rightarrow> exn + string list" where
  "to_string Undefined = Inr ''undefined''"
| "to_string Null = Inr ''null''"
| "to_string (Bool b) = Inr (if b then ''true'' else ''false'')"
| "to_string (Num n) = Inr (show_int n)"
| "to_string (Str s) = Inr s"
| "to_string (Arr xs) =
     (case strings_of xs of Inl e \<Rightarrow> Inl e | Inr ss \<Rightarrow> Inr (join_with '','' ss))"
| "to_string (Obj kvs) =
     (case map_of kvs ''toString'' of
        None \<Rightarrow> Inr ''[object Object]''
      | Some f \<Rightarrow> Inl (js_error ''Cannot convert object to primitive value''))"
| "strings_of [] = Inr []"
| "strings_of (x # xs) =
     (case (if nullish x then Inr [] else to_string x) of
        Inl e \<Rightarrow> Inl e
      | Inr s \<Rightarrow> (case strings_of xs of Inl e \<Rightarrow> Inl e | Inr ss \<Rightarrow> Inr (s # ss)))"

text \<open>\<^verbatim>\<open>xs.join(sep)\<close> on an array of values.\<close>

definition array_join :: "string \<Rightarrow> jsval list \<Rightarrow> exn + string" where
  "array_join sep xs = bind_exn (strings_of xs) (\<lambda>ss. Inr (join_with sep ss))"

text \<open>A template literal: its literal parts and its substitutions, converted in order.\<close>

datatype piece = Lit string | Sub jsval

fun template :: "piece list \<Rightarrow> exn + string" where
  "template [] = Inr []"
| "template (Lit s # ps) = (case template ps of Inl e \<Rightarrow> Inl e | Inr r \<Rightarrow> Inr (s @ r))"
| "template (Sub v # ps) =
     (case to_string v of
        Inl e \<Rightarrow> Inl e
      | Inr s \<Rightarrow> (case template ps of Inl e \<Rightarrow> Inl e | Inr r \<Rightarrow> Inr (s @ r)))"

text \<open>\<^verbatim>\<open>String.prototype.trim\<close>: the white space and line terminators of ECMAScript, as
  UTF-8 byte sequences.\<close>

definition white_space :: "string list" where
  "white_space =
     [[CHR 0x09], [CHR 0x0A], [CHR 0x0B], [CHR 0x0C], [CHR 0x0D], [CHR 0x20],
      [CHR 0xC2, CHR 0xA0],
      [CHR 0xE1, CHR 0x9A, CHR 0x80],
      [CHR 0xE2, CHR 0x80, CHR 0x80], [CHR 0xE2, CHR 0x80, CHR 0x81],
      [CHR 0xE2, CHR 0x80, CHR 0x82], [CHR 0xE2, CHR 0x80, CHR 0x83],
      [CHR 0xE2, CHR 0x80, CHR 0x84], [CHR 0xE2, CHR 0x80, CHR 0x85],
      [CHR 0xE2, CHR 0x80, CHR 0x86], [CHR 0xE2, CHR 0x80, CHR 0x87],
      [CHR 0xE2, CHR 0x80, CHR 0x88], [CHR 0xE2, CHR 0x80, CHR 0x89],
      [CHR 0xE2, CHR 0x80, CHR 0x8A],
      [CHR 0xE2, CHR 0x80, CHR 0xA8], [CHR 0xE2, CHR 0x80, CHR 0xA9],
      [CHR 0xE2, CHR 0x80, CHR 0xAF],
      [CHR 0xE2, CHR 0x81, CHR 0x9F],
      [CHR 0xE3, CHR 0x80, CHR 0x80],
      [CHR 0xEF, CHR 0xBB, CHR 0xBF]]"

fun drop_leading :: "string list \<Rightarrow> string \<Rightarrow> string" where
  "drop_leading ws [] = []"
| "drop_leading ws (c # s) =
     (case find (\<lambda>w. prefix w (c # s)) ws of
        None \<Rightarrow> c # s
      | Some w \<Rightarrow> drop_leading ws (drop (length w - 1) s))"

definition trim :: "string \<Rightarrow> string" where
  "trim s = rev (drop_leading (map rev white_space) (rev (drop_leading white_space s)))"

subsection \<open>Properties\<close>

text \<open>\<^verbatim>\<open>v.k\<close> for a value \<open>v\<close> that is not nullish and a name \<open>k\<close> the action reads as data
  (\<^verbatim>\<open>valid\<close>, \<^verbatim>\<open>summary\<close>, \<^verbatim>\<open>events\<close>, \<^verbatim>\<open>status\<close>, \<^verbatim>\<open>name\<close>, \<^verbatim>\<open>length\<close>, ...). The methods
  it calls (\<^verbatim>\<open>filter\<close>, \<^verbatim>\<open>trim\<close>) are modelled where they are called.\<close>

fun member :: "jsval \<Rightarrow> string \<Rightarrow> jsval" where
  "member (Obj kvs) k = (case map_of kvs k of Some x \<Rightarrow> x | None \<Rightarrow> Undefined)"
| "member (Arr xs) k = (if k = ''length'' then Num (int (length xs)) else Undefined)"
| "member (Str s) k = (if k = ''length'' then Num (int (utf16_length s)) else Undefined)"
| "member _ k = Undefined"

text \<open>\<^verbatim>\<open>v?.k\<close>.\<close>

definition opt_member :: "jsval \<Rightarrow> string \<Rightarrow> jsval" where
  "opt_member v k = (if nullish v then Undefined else member v k)"

text \<open>\<^verbatim>\<open>v[0]\<close> for a value that is not nullish. Of a string it is the first character
  (the model keeps the whole first code point; every property the action then reads
  of it is undefined either way).\<close>

fun index0 :: "jsval \<Rightarrow> jsval" where
  "index0 (Arr []) = Undefined"
| "index0 (Arr (x # xs)) = x"
| "index0 (Obj kvs) = member (Obj kvs) ''0''"
| "index0 (Str []) = Undefined"
| "index0 (Str (c # s)) =
     Str (c # takeWhile (\<lambda>d. (0x80::nat) \<le> of_char d \<and> (of_char d :: nat) < 0xC0) s)"
| "index0 _ = Undefined"

text \<open>\<^verbatim>\<open>Object.keys(v)\<close> for a value that is not nullish.\<close>

fun object_keys :: "jsval \<Rightarrow> string list" where
  "object_keys (Obj kvs) = map fst kvs"
| "object_keys (Arr xs) = map show_nat [0..<length xs]"
| "object_keys (Str s) = map show_nat [0..<utf16_length s]"
| "object_keys _ = []"

subsection \<open>JSON.stringify\<close>

definition hex_digit :: "nat \<Rightarrow> char" where
  "hex_digit d = ''0123456789abcdef'' ! d"

definition json_escape :: "char \<Rightarrow> string" where
  "json_escape c =
     (if c = CHR 0x22 then [CHR 0x5C, CHR 0x22]
      else if c = CHR 0x5C then [CHR 0x5C, CHR 0x5C]
      else if c = CHR 0x08 then [CHR 0x5C, CHR ''b'']
      else if c = CHR 0x0C then [CHR 0x5C, CHR ''f'']
      else if c = CHR 0x0A then [CHR 0x5C, CHR ''n'']
      else if c = CHR 0x0D then [CHR 0x5C, CHR ''r'']
      else if c = CHR 0x09 then [CHR 0x5C, CHR ''t'']
      else if (of_char c :: nat) < 0x20
        then [CHR 0x5C, CHR ''u'', CHR ''0'', CHR ''0'',
              hex_digit (of_char c div 16), hex_digit (of_char c mod 16)]
      else [c])"

definition json_quote :: "string \<Rightarrow> string" where
  "json_quote s = [CHR 0x22] @ concat (map json_escape s) @ [CHR 0x22]"

text \<open>\<open>None\<close> is the \<^verbatim>\<open>undefined\<close> that \<^verbatim>\<open>JSON.stringify(undefined)\<close> returns. In an array
  an undefined element prints as \<^verbatim>\<open>null\<close>; in an object an undefined property is left
  out.\<close>

fun json_stringify :: "jsval \<Rightarrow> string option" where
  "json_stringify Undefined = None"
| "json_stringify Null = Some ''null''"
| "json_stringify (Bool b) = Some (if b then ''true'' else ''false'')"
| "json_stringify (Num n) = Some (show_int n)"
| "json_stringify (Str s) = Some (json_quote s)"
| "json_stringify (Arr xs) =
     Some (''['' @ join_with '','' (map (\<lambda>x. case json_stringify x of None \<Rightarrow> ''null'' | Some t \<Rightarrow> t) xs)
           @ '']'')"
| "json_stringify (Obj kvs) =
     Some (''{'' @ join_with '',''
             (concat (map (\<lambda>(k, v). case json_stringify v of
                                       None \<Rightarrow> []
                                     | Some t \<Rightarrow> [json_quote k @ '':'' @ t]) kvs))
           @ ''}'')"

text \<open>\<^verbatim>\<open>${JSON.stringify(v)}\<close>.\<close>

definition stringify_text :: "jsval \<Rightarrow> string" where
  "stringify_text v = (case json_stringify v of None \<Rightarrow> ''undefined'' | Some t \<Rightarrow> t)"

section \<open>Effects and the environment\<close>

text \<open>What a run does to the world, in order: the log lines of \<^verbatim>\<open>core.info\<close>,
  \<^verbatim>\<open>core.warning\<close> and \<^verbatim>\<open>core.error\<close>, the outputs of \<^verbatim>\<open>core.setOutput\<close>, the failure
  mark of \<^verbatim>\<open>core.setFailed\<close> (the non-zero exit status), the POST of \<^verbatim>\<open>axios.post\<close>
  (endpoint, body, headers) and the review of \<^verbatim>\<open>octokit.rest.pulls.createReview\<close>.\<close>

datatype effect =
    Info string
  | Warning string
  | ErrorLog string
  | SetOutput string jsval
  | SetFailed string
  | AxiosPost string jsval "(string \<times> string) list"
  | CreateReview jsval

text \<open>What the action reads of the world and is not its own code: the toolkit's input
  readers (each returns or throws), the repository of the workflow context (a getter
  that can throw), the \<^verbatim>\<open>pull_request\<close> of the webhook payload, the token of the process
  environment, the answer of the validation service to a POST (\<^verbatim>\<open>response.data\<close>, or the
  error the HTTP client throws), the answer of the hosting service to a review (\<open>None\<close>:
  accepted), and how the language reads a string as a number where \<^verbatim>\<open>s > 0\<close> is asked of a
  string \<open>s\<close> (whether the number it spells is greater than 0).\<close>

record env =
  getInput :: "string \<Rightarrow> bool \<Rightarrow> exn + string"
  getBooleanInput :: "string \<Rightarrow> exn + bool"
  context_repo :: "exn + jsval \<times> jsval"
  pull_request :: jsval
  GITHUB_TOKEN :: "string option"
  axios_post :: "string \<Rightarrow> jsval \<Rightarrow> (string \<times> string) list \<Rightarrow> exn + jsval"
  createReview :: "jsval \<Rightarrow> exn option"
  string_gt_zero :: "string \<Rightarrow> bool"

text \<open>\<^verbatim>\<open>v > 0\<close>: the operand is converted to a number. \<^verbatim>\<open>undefined\<close> is NaN, \<^verbatim>\<open>null\<close> is 0,
  \<^verbatim>\<open>true\<close> is 1, an array is read through its string (and throws when that conversion
  does), an object is NaN, or throws when it has an own property \<^verbatim>\<open>toString\<close>.\<close>

fun gt_zero :: "env \<Rightarrow> jsval \<Rightarrow> exn + bool" where
  "gt_zero E Undefined = Inr False"
| "gt_zero E Null = Inr False"
| "gt_zero E (Bool b) = Inr b"
| "gt_zero E (Num n) = Inr (0 < n)"
| "gt_zero E (Str s) = Inr (string_gt_zero E s)"
| "gt_zero E (Arr xs) = bind_exn (to_string (Arr xs)) (\<lambda>s. Inr (string_gt_zero E s))"
| "gt_zero E (Obj kvs) =
     (case map_of kvs ''toString'' of
        None \<Rightarrow> Inr False
      | Some f \<Rightarrow> Inl (js_error ''Cannot convert object to primitive value''))"

text \<open>\<^verbatim>\<open>v.k\<close> where \<open>v\<close> may be nullish: the read throws a \<^verbatim>\<open>TypeError\<close> (the message is
  the engine's).\<close>

definition dot :: "jsval \<Rightarrow> string \<Rightarrow> exn + jsval" where
  "dot v k =
     (if nullish v
      then Inl (js_error (''Cannot read properties of ''
                          @ (if v = Null then ''null'' else ''undefined'')
                          @ '' (reading '' @ [CHR 0x27] @ k @ [CHR 0x27] @ '')''))
      else Inr (member v k))"

text \<open>A computation inside a \<^verbatim>\<open>try\<close> block: the effects it had, and the error it threw or
  the value it returned.\<close>

type_synonym 'a io = "effect list \<times> (exn + 'a)"

definition io_bind :: "'a io \<Rightarrow> ('a \<Rightarrow> 'b io) \<Rightarrow> 'b io" where
  "io_bind m f =
     (case m of
        (w, Inl e) \<Rightarrow> (w, Inl e)
      | (w, Inr a) \<Rightarrow> (case f a of (w', r) \<Rightarrow> (w @ w', r)))"

definition emit :: "effect list \<Rightarrow> unit io" where
  "emit w = (w, Inr ())"

definition io_of :: "exn + 'a \<Rightarrow> 'a io" where
  "io_of r = ([], r)"

text \<open>Statements in sequence.\<close>

fun do_all :: "unit io list \<Rightarrow> unit io" where
  "do_all [] = emit []"
| "do_all (m # ms) = io_bind m (\<lambda>_. do_all ms)"

text \<open>\<^verbatim>\<open>core.info(`...`)\<close>, \<^verbatim>\<open>core.warning(`...`)\<close>: the template is evaluated, then the line is
  logged.\<close>

definition log :: "(string \<Rightarrow> effect) \<Rightarrow> piece list \<Rightarrow> unit io" where
  "log logger ps = (case template ps of Inl e \<Rightarrow> ([], Inl e) | Inr s \<Rightarrow> ([logger s], Inr ()))"

section \<open>The action: \<^verbatim>\<open>run\<close>\<close>

definition cross_mark :: string where
  "cross_mark = [CHR 0xE2, CHR 0x9D, CHR 0x8C]"

definition warning_sign :: string where
  "warning_sign = [CHR 0xE2, CHR 0x9A, CHR 0xA0, CHR 0xEF, CHR 0xB8, CHR 0x8F]"

definition new_button :: string where
  "new_button = [CHR 0xF0, CHR 0x9F, CHR 0x86, CHR 0x95]"

definition check_mark :: string where
  "check_mark = [CHR 0xE2, CHR 0x9C, CHR 0x85]"

subsection \<open>Inputs (lines 8 to 45)\<close>

record inputs =
  apiKey :: string
  trackingPlanId :: string
  apiUrl :: string
  holistic :: bool
  delta :: bool
  autoUpdate :: bool
  overwrite :: bool
  comment :: bool
  failOnInvalid :: bool
  validationRequest :: jsval

text \<open>Lines 24 to 31: the details of the pull request, or the empty object.\<close>

definition prDetails :: "jsval \<Rightarrow> exn + jsval" where
  "prDetails pr =
     (if truthy pr then
        bind_exn (dot (member pr ''head'') ''sha'') (\<lambda>headSha.
        bind_exn (dot (member pr ''base'') ''sha'') (\<lambda>baseSha.
        Inr (Obj [(''prNumber'', member pr ''number''),
                  (''headSha'', headSha),
                  (''baseSha'', baseSha)])))
      else Inr (Obj []))"

definition collect_inputs :: "env \<Rightarrow> exn + inputs" where
  "collect_inputs E =
     bind_exn (getInput E ''api-key'' True) (\<lambda>k.
     bind_exn (getInput E ''tracking-plan-id'' True) (\<lambda>t.
     bind_exn (getInput E ''api-url'' False) (\<lambda>u.
     bind_exn (getBooleanInput E ''holistic'') (\<lambda>h.
     bind_exn (getBooleanInput E ''delta'') (\<lambda>d.
     bind_exn (getBooleanInput E ''auto-update'') (\<lambda>a.
     bind_exn (getBooleanInput E ''overwrite'') (\<lambda>ow.
     bind_exn (getBooleanInput E ''comment'') (\<lambda>c.
     bind_exn (getBooleanInput E ''fail-on-invalid'') (\<lambda>f.
     bind_exn (context_repo E) (\<lambda>(owner, repo).
     bind_exn (template [Lit ''https://github.com/'', Sub owner, Lit ''/'', Sub repo]) (\<lambda>url.
     bind_exn (prDetails (pull_request E)) (\<lambda>details.
     Inr \<lparr>apiKey = k, trackingPlanId = t, apiUrl = u, holistic = h, delta = d,
          autoUpdate = a, overwrite = ow, comment = c, failOnInvalid = f,
          validationRequest =
            Obj [(''repositoryUrl'', Str url),
                 (''trackingPlanId'', Str t),
                 (''options'',
                    Obj [(''holistic'', Bool h),
                         (''delta'', Bool d),
                         (''autoUpdateTrackingPlan'', Bool a),
                         (''overwriteExisting'', Bool ow),
                         (''comment'', Bool c)]),
                 (''prDetails'', details)]\<rparr>))))))))))))"

subsection \<open>The validation call (lines 48 to 64)\<close>

definition validationEndpoint :: "inputs \<Rightarrow> string" where
  "validationEndpoint inp = apiUrl inp @ ''/api/github-action/validate''"

definition request_headers :: "inputs \<Rightarrow> (string \<times> string) list" where
  "request_headers inp =
     [(''Authorization'', ''Bearer '' @ apiKey inp),
      (''Content-Type'', ''application/json''),
      (''User-Agent'', ''AATX-GitHub-Action'')]"

text \<open>\<^verbatim>\<open>await axios.post(...)\<close> and \<^verbatim>\<open>response.data\<close>.\<close>

definition post_validation :: "env \<Rightarrow> inputs \<Rightarrow> jsval io" where
  "post_validation E inp =
     ([AxiosPost (validationEndpoint inp) (validationRequest inp) (request_headers inp)],
      axios_post E (validationEndpoint inp) (validationRequest inp) (request_headers inp))"

text \<open>Line 62: \<^verbatim>\<open>!result || typeof result !== 'object'\<close> is false.\<close>

definition response_ok :: "jsval \<Rightarrow> bool" where
  "response_ok result = (truthy result \<and> typeof_object result)"

subsection \<open>The report (lines 66 to 141)\<close>

text \<open>\<^verbatim>\<open>result.summary?.k || 0\<close>.\<close>

definition summary_count :: "jsval \<Rightarrow> string \<Rightarrow> jsval" where
  "summary_count result k = js_or (opt_member (member result ''summary'') k) (Num 0)"

text \<open>Lines 67 to 76.\<close>

definition log_summary :: "jsval \<Rightarrow> unit io" where
  "log_summary result =
     do_all
       [log Info [Lit ''Validation completed with '',
                  Lit (if truthy (member result ''valid'') then ''success'' else ''errors'')],
        log Info [Lit ''Total events: '', Sub (summary_count result ''totalEvents'')],
        log Info [Lit ''Valid events: '', Sub (summary_count result ''validEvents'')],
        log Info [Lit ''Invalid events: '', Sub (summary_count result ''invalidEvents'')],
        log Info [Lit ''Missing events: '', Sub (summary_count result ''missingEvents'')],
        log Info [Lit ''New events: '', Sub (summary_count result ''newEvents'')],
        if truthy (member result ''trackingPlanUpdated'')
        then log Info [Lit ''Tracking plan was automatically updated with new events'']
        else emit []]"

text \<open>\<^verbatim>\<open>events.filter(e => e.status === st)\<close>: reading \<^verbatim>\<open>status\<close> of a nullish element
  throws.\<close>

fun filter_events :: "string \<Rightarrow> jsval list \<Rightarrow> exn + jsval list" where
  "filter_events st [] = Inr []"
| "filter_events st (e # es) =
     bind_exn (dot e ''status'') (\<lambda>s.
     bind_exn (filter_events st es) (\<lambda>r.
     Inr (if s = Str st then e # r else r)))"

text \<open>\<^verbatim>\<open>result.events?.filter(e => e.status === st) || []\<close> (lines 79, 101, 116, 194, 207
  and 220). \<^verbatim>\<open>filter\<close> is a function only of an array.\<close>

definition filter_status :: "string \<Rightarrow> jsval \<Rightarrow> exn + jsval list" where
  "filter_status st result =
     (case member result ''events'' of
        Undefined \<Rightarrow> Inr []
      | Null \<Rightarrow> Inr []
      | Arr es \<Rightarrow> filter_events st es
      | _ \<Rightarrow> Inl (js_error ''result.events?.filter is not a function''))"

text \<open>\<^verbatim>\<open>event.implementation && event.implementation.length > 0\<close>, as the condition of an
  \<^verbatim>\<open>if\<close>.\<close>

definition has_implementation :: "env \<Rightarrow> jsval \<Rightarrow> exn + bool" where
  "has_implementation E event =
     (if truthy (member event ''implementation'')
      then gt_zero E (member (member event ''implementation'') ''length'')
      else Inr False)"

text \<open>\<^verbatim>\<open>event.properties && Object.keys(event.properties).length > 0\<close>.\<close>

definition has_properties :: "jsval \<Rightarrow> bool" where
  "has_properties event =
     (truthy (member event ''properties'')
      \<and> length (object_keys (member event ''properties'')) > 0)"

text \<open>\<^verbatim>\<open>Object.keys(event.properties).join(', ')\<close>.\<close>

definition property_names :: "jsval \<Rightarrow> string" where
  "property_names event = join_with '', '' (object_keys (member event ''properties''))"

text \<open>Lines 87 to 93 and, with \<^verbatim>\<open>core.info\<close> for \<^verbatim>\<open>core.warning\<close>, lines 121 to 127: the
  first location and its code. \<open>logger\<close> is the logging call.\<close>

definition log_implementation :: "(string \<Rightarrow> effect) \<Rightarrow> env \<Rightarrow> jsval \<Rightarrow> unit io" where
  "log_implementation logger E event =
     io_bind (io_of (has_implementation E event)) (\<lambda>present.
     if present then
       (let impl = index0 (member event ''implementation'') in
        io_bind (io_of (dot impl ''path'')) (\<lambda>path.
        do_all
          [log logger [Lit ''   Location: '', Sub path, Lit '':'', Sub (member impl ''line'')],
           if truthy (member impl ''code'') then
             (case member impl ''code'' of
                Str c \<Rightarrow> log logger [Lit ''   Code: '', Lit (trim c)]
              | _ \<Rightarrow> io_of (Inl (js_error ''impl.code.trim is not a function'')))
           else emit []]))
     else emit [])"

text \<open>Lines 94 to 96, 109 to 111 and 128 to 130.\<close>

definition log_properties :: "(string \<Rightarrow> effect) \<Rightarrow> string \<Rightarrow> jsval \<Rightarrow> unit io" where
  "log_properties logger label event =
     (if has_properties event
      then log logger [Lit ''   '', Lit label, Lit '' Properties: '', Lit (property_names event)]
      else emit [])"

text \<open>The body of the \<^verbatim>\<open>forEach\<close> of lines 82 to 97.\<close>

definition log_invalid_event :: "env \<Rightarrow> jsval \<Rightarrow> nat \<Rightarrow> unit io" where
  "log_invalid_event E event index =
     do_all
       [log Warning [Lit nl, Lit (show_nat (index + 1)), Lit ''. Event: '',
                     Sub (member event ''name'')],
        if truthy (member event ''message'')
        then log Warning [Lit ''   Error: '', Sub (member event ''message'')]
        else emit [],
        log_implementation Warning E event,
        log_properties Warning ''Required'' event]"

text \<open>The body of the \<^verbatim>\<open>forEach\<close> of lines 104 to 112.\<close>

definition log_missing_event :: "env \<Rightarrow> jsval \<Rightarrow> nat \<Rightarrow> unit io" where
  "log_missing_event E event index =
     do_all
       [log Warning [Lit nl, Lit (show_nat (index + 1)), Lit ''. Event: '',
                     Sub (member event ''name'')],
        if truthy (member event ''message'')
        then log Warning [Lit ''   Note: '', Sub (member event ''message'')]
        else emit [],
        log_properties Warning ''Required'' event]"

text \<open>The body of the \<^verbatim>\<open>forEach\<close> of lines 119 to 131.\<close>

definition log_new_event :: "env \<Rightarrow> jsval \<Rightarrow> nat \<Rightarrow> unit io" where
  "log_new_event E event index =
     do_all
       [log Info [Lit nl, Lit (show_nat (index + 1)), Lit ''. Event: '',
                  Sub (member event ''name'')],
        log_implementation Info E event,
        log_properties Info ''Detected'' event]"

text \<open>\<^verbatim>\<open>events.forEach((event, index) => ...)\<close>, from index \<open>i\<close> on.\<close>

fun for_each :: "(jsval \<Rightarrow> nat \<Rightarrow> unit io) \<Rightarrow> nat \<Rightarrow> jsval list \<Rightarrow> unit io" where
  "for_each f i [] = emit []"
| "for_each f i (event # events) = io_bind (f event i) (\<lambda>_. for_each f (i + 1) events)"

text \<open>Lines 79 to 98, 101 to 113 and 116 to 132: one view of the events, its header and
  its entries. Each returns the view.\<close>

definition log_events ::
  "string \<Rightarrow> (nat \<Rightarrow> effect) \<Rightarrow> (jsval \<Rightarrow> nat \<Rightarrow> unit io) \<Rightarrow> jsval \<Rightarrow> jsval list io" where
  "log_events st header entry result =
     io_bind (io_of (filter_status st result)) (\<lambda>events.
     io_bind (if length events > 0
              then io_bind (emit [header (length events)]) (\<lambda>_. for_each entry 0 events)
              else emit []) (\<lambda>_.
     (io_of (Inr events))))"

definition log_invalid_events :: "env \<Rightarrow> jsval \<Rightarrow> jsval list io" where
  "log_invalid_events E result =
     log_events ''invalid''
       (\<lambda>n. Warning (nl @ cross_mark @ '' INVALID EVENTS ('' @ show_nat n @ ''):''))
       (log_invalid_event E) result"

definition log_missing_events :: "env \<Rightarrow> jsval \<Rightarrow> jsval list io" where
  "log_missing_events E result =
     log_events ''missing''
       (\<lambda>n. Warning (nl @ warning_sign @ '' MISSING EVENTS ('' @ show_nat n @ ''):''))
       (log_missing_event E) result"

definition log_new_events :: "env \<Rightarrow> jsval \<Rightarrow> jsval list io" where
  "log_new_events E result =
     log_events ''new''
       (\<lambda>n. Info (nl @ new_button @ '' NEW EVENTS ('' @ show_nat n @ ''):''))
       (log_new_event E) result"

text \<open>Lines 135 to 141.\<close>

definition set_outputs :: "jsval \<Rightarrow> effect list" where
  "set_outputs result =
     [SetOutput ''valid'' (member result ''valid''),
      SetOutput ''total_events'' (summary_count result ''totalEvents''),
      SetOutput ''valid_events'' (summary_count result ''validEvents''),
      SetOutput ''invalid_events'' (summary_count result ''invalidEvents''),
      SetOutput ''missing_events'' (summary_count result ''missingEvents''),
      SetOutput ''new_events'' (summary_count result ''newEvents''),
      SetOutput ''tracking_plan_updated'' (js_or (member result ''trackingPlanUpdated'') (Bool False))]"

text \<open>The Result Reporter, lines 66 to 141: the log and the outputs. It returns the
  invalid and the missing events, which the failure message lists.\<close>

definition report :: "env \<Rightarrow> jsval \<Rightarrow> (jsval list \<times> jsval list) io" where
  "report E result =
     io_bind (log_summary result) (\<lambda>_.
     io_bind (log_invalid_events E result) (\<lambda>invalidEvents.
     io_bind (log_missing_events E result) (\<lambda>missingEvents.
     io_bind (log_new_events E result) (\<lambda>newEvents.
     io_bind (emit (set_outputs result)) (\<lambda>_.
     io_of (Inr (invalidEvents, missingEvents)))))))"

subsection \<open>The Review Publisher: \<^verbatim>\<open>addPrReviewComments\<close> (lines 177 to 266)\<close>

text \<open>\<^verbatim>\<open>Object.keys(event.properties).join(', ')\<close> if \<^verbatim>\<open>event.properties\<close> is truthy, and the
  text \<open>none\<close> if not.\<close>

definition properties_or :: "string \<Rightarrow> jsval \<Rightarrow> string" where
  "properties_or none event =
     (if truthy (member event ''properties'') then property_names event else none)"

text \<open>Lines 198 to 202: \<^verbatim>\<open>impl.path\<close>, \<^verbatim>\<open>impl.line\<close>, then the body.\<close>

definition invalid_comment :: "jsval \<Rightarrow> jsval \<Rightarrow> exn + jsval" where
  "invalid_comment impl event =
     bind_exn (dot impl ''path'') (\<lambda>path.
     bind_exn (template [Lit cross_mark, Lit '' **Invalid Event**: `'',
                         Sub (member event ''name''), Lit ''`'', Lit nl, Lit nl,
                         Sub (js_or (member event ''message'')
                                    (Str ''Event does not match tracking plan'')),
                         Lit nl, Lit nl, Lit ''**Required Properties**: '',
                         Lit (properties_or ''None specified'' event)]) (\<lambda>body.
     Inr (Obj [(''path'', path), (''line'', member impl ''line''), (''body'', Str body)])))"

text \<open>Lines 211 to 215.\<close>

definition new_comment :: "jsval \<Rightarrow> jsval \<Rightarrow> exn + jsval" where
  "new_comment impl event =
     bind_exn (dot impl ''path'') (\<lambda>path.
     bind_exn (template [Lit new_button, Lit '' **New Event**: `'',
                         Sub (member event ''name''), Lit ''`'', Lit nl, Lit nl,
                         Sub (js_or (member event ''message'')
                                    (Str ''Event found in codebase but not in tracking plan'')),
                         Lit nl, Lit nl, Lit ''**Properties**: '',
                         Lit (properties_or ''None detected'' event)]) (\<lambda>body.
     Inr (Obj [(''path'', path), (''line'', member impl ''line''), (''body'', Str body)])))"

text \<open>The loops of lines 195 to 204 and 208 to 217: one comment for each event with an
  implementation, at its first location.\<close>

fun event_comments ::
  "(jsval \<Rightarrow> jsval \<Rightarrow> exn + jsval) \<Rightarrow> env \<Rightarrow> jsval list \<Rightarrow> exn + jsval list" where
  "event_comments mk E [] = Inr []"
| "event_comments mk E (event # events) =
     (case has_implementation E event of
        Inl e \<Rightarrow> Inl e
      | Inr present \<Rightarrow>
          if present then
            (case mk (index0 (member event ''implementation'')) event of
               Inl e \<Rightarrow> Inl e
             | Inr c \<Rightarrow>
                 (case event_comments mk E events of
                    Inl e \<Rightarrow> Inl e
                  | Inr cs \<Rightarrow> Inr (c # cs)))
          else event_comments mk E events)"

text \<open>Line 222: \<^verbatim>\<open>missingEvents.map(e => `\`${e.name}\``)\<close>.\<close>

fun quoted_names :: "jsval list \<Rightarrow> exn + string list" where
  "quoted_names [] = Inr []"
| "quoted_names (e # es) =
     (case template [Lit ''`'', Sub (member e ''name''), Lit ''`''] of
        Inl x \<Rightarrow> Inl x
      | Inr n \<Rightarrow> (case quoted_names es of Inl x \<Rightarrow> Inl x | Inr ns \<Rightarrow> Inr (n # ns)))"

text \<open>Lines 222 to 227: the one comment for all the missing events.\<close>

definition missing_comment :: "jsval list \<Rightarrow> exn + jsval" where
  "missing_comment missingEvents =
     bind_exn (quoted_names missingEvents) (\<lambda>names.
     Inr (Obj [(''path'', Str ''README.md''),
               (''line'', Num 1),
               (''body'',
                  Str (warning_sign
                       @ '' **Missing Events**: The following events are defined in the tracking plan but not found in the codebase:''
                       @ nl @ nl
                       @ join_with '', '' names
                       @ nl @ nl
                       @ ''Please implement these events or remove them from the tracking plan.''))]))"

text \<open>Lines 191 to 228: \<^verbatim>\<open>reviewComments\<close>.\<close>

definition reviewComments :: "env \<Rightarrow> jsval \<Rightarrow> exn + jsval list" where
  "reviewComments E result =
     bind_exn (filter_status ''invalid'' result) (\<lambda>invalidEvents.
     bind_exn (event_comments invalid_comment E invalidEvents) (\<lambda>cs1.
     bind_exn (filter_status ''new'' result) (\<lambda>newEvents.
     bind_exn (event_comments new_comment E newEvents) (\<lambda>cs2.
     bind_exn (filter_status ''missing'' result) (\<lambda>missingEvents.
     if length missingEvents > 0
     then bind_exn (missing_comment missingEvents) (\<lambda>c. Inr (cs1 @ cs2 @ [c]))
     else Inr (cs1 @ cs2))))))"

text \<open>Lines 232 to 244.\<close>

definition reviewBody :: "jsval \<Rightarrow> exn + string" where
  "reviewBody result =
     template
       ([Lit ''## AATX Tracking Plan Validation Review'', Lit nl,
         Lit ''      '', Lit nl,
         Lit ''- **Total Events**: '', Sub (summary_count result ''totalEvents''), Lit nl,
         Lit ''- **Valid Events**: '', Sub (summary_count result ''validEvents''), Lit nl,
         Lit ''- **Invalid Events**: '', Sub (summary_count result ''invalidEvents''), Lit nl,
         Lit ''- **Missing Events**: '', Sub (summary_count result ''missingEvents''), Lit nl,
         Lit ''- **New Events**: '', Sub (summary_count result ''newEvents''), Lit nl,
         Lit nl,
         Lit (if truthy (member result ''trackingPlanUpdated'')
              then check_mark @ '' Tracking plan was automatically updated with new events''
              else []),
         Lit nl,
         Lit (if \<not> truthy (member result ''valid'')
              then cross_mark @ '' Some events do not match the tracking plan''
              else check_mark @ '' All events match the tracking plan''),
         Lit nl, Lit nl]
        @ (if truthy (opt_member (member result ''metadata'') ''validationDuration'')
           then [Lit nl, Lit ''**Validation Duration**: '',
                 Sub (member (member result ''metadata'') ''validationDuration''), Lit ''ms'']
           else [])
        @ [Lit nl]
        @ (if truthy (opt_member (member result ''metadata'') ''agentVersion'')
           then [Lit nl, Lit ''**Agent Version**: '',
                 Sub (member (member result ''metadata'') ''agentVersion'')]
           else []))"

text \<open>Line 251: \<^verbatim>\<open>result.summary?.invalidEvents > 0 ? "REQUEST_CHANGES" : "COMMENT"\<close>.\<close>

definition review_event :: "env \<Rightarrow> jsval \<Rightarrow> exn + string" where
  "review_event E result =
     bind_exn (gt_zero E (opt_member (member result ''summary'') ''invalidEvents'')) (\<lambda>positive.
     Inr (if positive then ''REQUEST_CHANGES'' else ''COMMENT''))"

text \<open>\<^verbatim>\<open>await octokit.rest.pulls.createReview(params)\<close>: the call, and the error of the
  hosting service if it answers with one.\<close>

definition create_review :: "env \<Rightarrow> jsval \<Rightarrow> unit io" where
  "create_review E params =
     ([CreateReview params], case createReview E params of Some e \<Rightarrow> Inl e | None \<Rightarrow> Inr ())"

text \<open>\<^verbatim>\<open>!token\<close> is false: the variable is set and not empty.\<close>

definition token_present :: "env \<Rightarrow> bool" where
  "token_present E = (case GITHUB_TOKEN E of None \<Rightarrow> False | Some t \<Rightarrow> t \<noteq> [])"

text \<open>The \<^verbatim>\<open>try\<close> block, lines 179 to 258. (\<^verbatim>\<open>github.getOctokit(token)\<close> builds the client
  of a token that is not empty; it has no effect.)\<close>

definition publish_try :: "env \<Rightarrow> jsval \<Rightarrow> unit io" where
  "publish_try E result =
     (if \<not> token_present E
      then emit [Warning ''GITHUB_TOKEN not available, skipping PR review comments'']
      else
        io_bind (io_of (context_repo E)) (\<lambda>(owner, repo).
        io_bind (io_of (dot (pull_request E) ''number'')) (\<lambda>prNumber.
        io_bind (io_of (reviewComments E result)) (\<lambda>comments.
        if length comments > 0 then
          io_bind (io_of (reviewBody result)) (\<lambda>body.
          io_bind (io_of (review_event E result)) (\<lambda>disposition.
          io_bind (create_review E
                     (Obj [(''owner'', owner),
                           (''repo'', repo),
                           (''pull_number'', prNumber),
                           (''body'', Str body),
                           (''event'', Str disposition),
                           (''comments'', Arr comments)])) (\<lambda>_.
          log Info [Lit ''Created PR review with '', Lit (show_nat (length comments)),
                    Lit '' comments''])))
        else emit [Info ''No review comments to add'']))))"

text \<open>The \<^verbatim>\<open>catch\<close> block, lines 260 to 265.\<close>

definition publish_catch :: "exn \<Rightarrow> effect list" where
  "publish_catch error =
     [Warning (''Failed to add PR review comments: '' @ message error)]
     @ (case response error of
          Some (status, payload) \<Rightarrow> [ErrorLog (''GitHub API response: '' @ stringify_text payload)]
        | None \<Rightarrow> [])"

definition addPrReviewComments :: "env \<Rightarrow> jsval \<Rightarrow> effect list" where
  "addPrReviewComments E result =
     (case publish_try E result of
        (w, Inl error) \<Rightarrow> w @ publish_catch error
      | (w, Inr _) \<Rightarrow> w)"

subsection \<open>The failure policy and the whole run\<close>

text \<open>Lines 149 to 166. The message grows in three steps; each count is printed, then
  compared with 0, and the names are joined only when it is greater.\<close>

definition fail_on_invalid ::
  "env \<Rightarrow> inputs \<Rightarrow> jsval \<Rightarrow> jsval list \<Rightarrow> jsval list \<Rightarrow> unit io" where
  "fail_on_invalid E inp result invalidEvents missingEvents =
     (if \<not> truthy (member result ''valid'') \<and> failOnInvalid inp then
        (let invalidCount = summary_count result ''invalidEvents'';
             missingCount = summary_count result ''missingEvents''
         in io_bind (io_of (template [Lit cross_mark, Lit '' Validation failed with '',
                                      Sub invalidCount, Lit '' invalid events and '',
                                      Sub missingCount, Lit '' missing events''])) (\<lambda>m0.
            io_bind (io_of (gt_zero E invalidCount)) (\<lambda>some_invalid.
            io_bind (io_of (if some_invalid
                            then bind_exn (array_join '', '' (map (\<lambda>e. member e ''name'') invalidEvents))
                                   (\<lambda>names. Inr (m0 @ nl @ nl @ ''Invalid events: '' @ names))
                            else Inr m0)) (\<lambda>m1.
            io_bind (io_of (gt_zero E missingCount)) (\<lambda>some_missing.
            io_bind (io_of (if some_missing
                            then bind_exn (array_join '', '' (map (\<lambda>e. member e ''name'') missingEvents))
                                   (\<lambda>names. Inr (m1 @ nl @ nl @ ''Missing events: '' @ names))
                            else Inr m1)) (\<lambda>m2.
            emit [SetFailed
                    (m2 @ nl @ nl
                     @ ''See the detailed output above for specific issues and locations.'')]))))))
      else emit [])"

text \<open>The \<^verbatim>\<open>try\<close> block of \<^verbatim>\<open>run\<close>, lines 8 to 166.\<close>

definition run_try :: "env \<Rightarrow> unit io" where
  "run_try E =
     io_bind (io_of (collect_inputs E)) (\<lambda>inp.
     io_bind (emit [Info (''Calling validation endpoint: '' @ validationEndpoint inp)]) (\<lambda>_.
     io_bind (post_validation E inp) (\<lambda>result.
     if response_ok result then
       io_bind (report E result) (\<lambda>(invalidEvents, missingEvents).
       io_bind (emit (if comment inp \<and> truthy (pull_request E)
                      then addPrReviewComments E result else [])) (\<lambda>_.
       fail_on_invalid E inp result invalidEvents missingEvents))
     else io_of (Inl (js_error ''Invalid response format from validation API'')))))"

text \<open>The \<^verbatim>\<open>catch\<close> block of \<^verbatim>\<open>run\<close>, lines 168 to 174.\<close>

definition run_catch :: "exn \<Rightarrow> effect list" where
  "run_catch error =
     [SetFailed (''Action failed: '' @ message error)]
     @ (case response error of
          Some (status, payload) \<Rightarrow>
            [ErrorLog (''Response status: '' @ show_int status),
             ErrorLog (''Response data: '' @ stringify_text payload)]
        | None \<Rightarrow> [])"

text \<open>A run: everything it does, in order.\<close>

definition run :: "env \<Rightarrow> effect list" where
  "run E =
     (case run_try E of
        (w, Inl error) \<Rightarrow> w @ run_catch error
      | (w, Inr _) \<Rightarrow> w)"

section \<open>What a run is observed by\<close>

text \<open>The run is marked failed (it exits with a non-zero status) when \<^verbatim>\<open>core.setFailed\<close> was
  called.\<close>

fun failed :: "effect list \<Rightarrow> bool" where
  "failed [] = False"
| "failed (SetFailed m # w) = True"
| "failed (_ # w) = failed w"

text \<open>The outputs set, in order, and the reviews sent to the hosting service.\<close>

fun outputs :: "effect list \<Rightarrow> (string \<times> jsval) list" where
  "outputs [] = []"
| "outputs (SetOutput n v # w) = (n, v) # outputs w"
| "outputs (_ # w) = outputs w"

fun review_calls :: "effect list \<Rightarrow> jsval list" where
  "review_calls [] = []"
| "review_calls (CreateReview params # w) = params # review_calls w"
| "review_calls (_ # w) = review_calls w"

text \<open>The failure policy within the run: its effects, and those of the \<^verbatim>\<open>catch\<close> block of
  \<^verbatim>\<open>run\<close> if it throws.\<close>

definition failure_policy ::
  "env \<Rightarrow> inputs \<Rightarrow> jsval \<Rightarrow> jsval list \<Rightarrow> jsval list \<Rightarrow> effect list" where
  "failure_policy E inp result invalidEvents missingEvents =
     (case fail_on_invalid E inp result invalidEvents missingEvents of
        (w, Inl error) \<Rightarrow> w @ run_catch error
      | (w, Inr _) \<Rightarrow> w)"

text \<open>A non-null object, as the language has it: an array or an object.\<close>

fun non_null_object :: "jsval \<Rightarrow> bool" where
  "non_null_object (Arr xs) = True"
| "non_null_object (Obj kvs) = True"
| "non_null_object _ = False"

text \<open>The events of a result: the elements of \<^verbatim>\<open>result.events\<close> when it is an array.\<close>

definition events_of :: "jsval \<Rightarrow> jsval list" where
  "events_of result = (case member result ''events'' of Arr es \<Rightarrow> es | _ \<Rightarrow> [])"

text \<open>The events of a result with status \<open>st\<close>, in order.\<close>

definition view :: "string \<Rightarrow> jsval \<Rightarrow> jsval list" where
  "view st result = filter (\<lambda>e. member e ''status'' = Str st) (events_of result)"

text \<open>The log lines.\<close>

fun is_log :: "effect \<Rightarrow> bool" where
  "is_log (Info m) = True"
| "is_log (Warning m) = True"
| "is_log (ErrorLog m) = True"
| "is_log _ = False"

text \<open>The string a value converts to (empty when the conversion throws).\<close>

definition text_of :: "jsval \<Rightarrow> string" where
  "text_of v = (case to_string v of Inl e \<Rightarrow> [] | Inr s \<Rightarrow> s)"

text \<open>The text of a piece of a template.\<close>

fun piece_text :: "piece \<Rightarrow> string" where
  "piece_text (Lit s) = s"
| "piece_text (Sub v) = text_of v"

text \<open>The values that convert to a string: every value but an object with an own property
  \<^verbatim>\<open>toString\<close>, and an array with an element that does not convert.\<close>

fun printable :: "jsval \<Rightarrow> bool"
  and all_printable :: "jsval list \<Rightarrow> bool" where
  "printable (Obj kvs) = (map_of kvs ''toString'' = None)"
| "printable (Arr xs) = all_printable xs"
| "printable Undefined = True"
| "printable Null = True"
| "printable (Bool b) = True"
| "printable (Num n) = True"
| "printable (Str s) = True"
| "all_printable [] = True"
| "all_printable (x # xs) = ((nullish x \<or> printable x) \<and> all_printable xs)"

text \<open>The entries of the log: the lines that announce an event, \<^verbatim>\<open>\n<index>. Event: <name>\<close>.
  They are the only lines of the reporter that start with a line feed and a digit.\<close>

fun starts_entry :: "string \<Rightarrow> bool" where
  "starts_entry (a # b # s) = (a = CHR 0x0A \<and> b \<in> set ''0123456789'')"
| "starts_entry _ = False"

fun is_entry :: "effect \<Rightarrow> bool" where
  "is_entry (Info m) = starts_entry m"
| "is_entry (Warning m) = starts_entry m"
| "is_entry _ = False"

text \<open>The entries of the events \<open>evs\<close>, numbered from 1, logged with \<open>logger\<close>.\<close>

definition entry_lines :: "(string \<Rightarrow> effect) \<Rightarrow> jsval list \<Rightarrow> effect list" where
  "entry_lines logger evs =
     map (\<lambda>(i, e). logger (nl @ show_nat (i + 1) @ ''. Event: '' @ text_of (member e ''name'')))
       (enumerate 0 evs)"

text \<open>An event has an implementation when the test of lines 87, 121, 196 and 209 is true.\<close>

definition implemented :: "env \<Rightarrow> jsval \<Rightarrow> bool" where
  "implemented E event = (has_implementation E event = Inr True)"

text \<open>What the specification asks of the body of the comment \<open>c\<close> on \<open>event\<close>: it starts with
  the marker of its kind and contains the name of the event, its message (or the default
  text of the kind when it has none) and its property names joined by commas (or the none
  marker of the kind when it has no properties).\<close>

definition body_template :: "string \<Rightarrow> string \<Rightarrow> string \<Rightarrow> jsval \<Rightarrow> jsval \<Rightarrow> bool" where
  "body_template marker default_text none_marker event c =
     (case member c ''body'' of
        Str b \<Rightarrow>
          prefix marker b
          \<and> sublist (text_of (member event ''name'')) b
          \<and> sublist (if truthy (member event ''message'')
                      then text_of (member event ''message'') else default_text) b
          \<and> sublist (if truthy (member event ''properties'')
                      then join_with '', '' (object_keys (member event ''properties''))
                      else none_marker) b
      | _ \<Rightarrow> False)"

text \<open>The effects the Review Publisher can have: log lines and reviews.\<close>

fun is_publishing :: "effect \<Rightarrow> bool" where
  "is_publishing (SetOutput n v) = False"
| "is_publishing (SetFailed m) = False"
| "is_publishing (AxiosPost u b h) = False"
| "is_publishing _ = True"

text \<open>What the Result Reporter cannot read: the results it throws on. The location of an
  event is unreadable when the length of its \<^verbatim>\<open>implementation\<close> does not convert to a
  number, or when it has an implementation whose first location is nullish (reading
  \<^verbatim>\<open>impl.path\<close> throws), has a \<^verbatim>\<open>path\<close> or \<^verbatim>\<open>line\<close> that does not convert to a string, or
  has a truthy \<^verbatim>\<open>code\<close> that is not a string (\<^verbatim>\<open>impl.code.trim\<close> is not a function). An
  entry is unreadable when the name of the event does not convert to a string, or its
  truthy message does not (invalid and missing events), or its location is unreadable
  (invalid and new events). A result is unreadable when a count of its summary does not
  convert to a string, or \<^verbatim>\<open>result.events\<close> is neither nullish nor an array, or is an
  array with a nullish element or with an invalid, missing or new event whose entry is
  unreadable.\<close>

fun is_string :: "jsval \<Rightarrow> bool" where
  "is_string (Str s) = True"
| "is_string _ = False"

definition location_unreadable :: "env \<Rightarrow> jsval \<Rightarrow> bool" where
  "location_unreadable E event =
     ((truthy (member event ''implementation'')
       \<and> \<not> printable (member (member event ''implementation'') ''length''))
      \<or> (implemented E event
         \<and> (nullish (index0 (member event ''implementation''))
            \<or> \<not> printable (member (index0 (member event ''implementation'')) ''path'')
            \<or> \<not> printable (member (index0 (member event ''implementation'')) ''line'')
            \<or> (truthy (member (index0 (member event ''implementation'')) ''code'')
               \<and> \<not> is_string (member (index0 (member event ''implementation'')) ''code'')))))"

definition message_unreadable :: "jsval \<Rightarrow> bool" where
  "message_unreadable event =
     (truthy (member event ''message'') \<and> \<not> printable (member event ''message''))"

definition entry_unreadable :: "env \<Rightarrow> jsval \<Rightarrow> bool" where
  "entry_unreadable E event =
     ((member event ''status'' = Str ''invalid''
       \<and> (\<not> printable (member event ''name'') \<or> message_unreadable event
          \<or> location_unreadable E event))
      \<or> (member event ''status'' = Str ''missing''
         \<and> (\<not> printable (member event ''name'') \<or> message_unreadable event))
      \<or> (member event ''status'' = Str ''new''
         \<and> (\<not> printable (member event ''name'') \<or> location_unreadable E event)))"

definition unreadable :: "env \<Rightarrow> jsval \<Rightarrow> bool" where
  "unreadable E result =
     (list_ex (\<lambda>k. \<not> printable (summary_count result k))
        [''totalEvents'', ''validEvents'', ''invalidEvents'', ''missingEvents'', ''newEvents'']
      \<or> (case member result ''events'' of
            Undefined \<Rightarrow> False
          | Null \<Rightarrow> False
          | Arr es \<Rightarrow> list_ex nullish es \<or> list_ex (entry_unreadable E) es
          | _ \<Rightarrow> True))"

text \<open>What the Review Publisher cannot build its comments from: the results the code of
  lines 191 to 228 throws on. The comment of an invalid or new event cannot be built when
  the length of its \<^verbatim>\<open>implementation\<close> does not convert to a number, or when it has an
  implementation whose first location is nullish, or its name or its truthy message does
  not convert to a string. The comments of a result cannot be built when \<^verbatim>\<open>result.events\<close>
  is neither nullish nor an array, or is an array with a nullish element, with an invalid
  or new event whose comment cannot be built, or with a missing event whose name does not
  convert to a string.\<close>

definition comment_unbuildable :: "env \<Rightarrow> jsval \<Rightarrow> bool" where
  "comment_unbuildable E event =
     ((truthy (member event ''implementation'')
       \<and> \<not> printable (member (member event ''implementation'') ''length''))
      \<or> (implemented E event
         \<and> (nullish (index0 (member event ''implementation''))
            \<or> \<not> printable (member event ''name'')
            \<or> message_unreadable event)))"

definition unbuildable :: "env \<Rightarrow> jsval \<Rightarrow> bool" where
  "unbuildable E result =
     (case member result ''events'' of
        Undefined \<Rightarrow> False
      | Null \<Rightarrow> False
      | Arr es \<Rightarrow>
          list_ex nullish es
          \<or> list_ex (\<lambda>e. (member e ''status'' = Str ''invalid'' \<or> member e ''status'' = Str ''new'')
                          \<and> comment_unbuildable E e) es
          \<or> list_ex (\<lambda>e. member e ''status'' = Str ''missing''
                          \<and> \<not> printable (member e ''name'')) es
      | _ \<Rightarrow> True)"

text \<open>The summary of the review (lines 232 to 244) cannot be written when a count of the
  summary, or a truthy \<^verbatim>\<open>validationDuration\<close> or \<^verbatim>\<open>agentVersion\<close> of the metadata, does not
  convert to a string.\<close>

definition summary_unprintable :: "jsval \<Rightarrow> bool" where
  "summary_unprintable result =
     (list_ex (\<lambda>k. \<not> printable (summary_count result k))
        [''totalEvents'', ''validEvents'', ''invalidEvents'', ''missingEvents'', ''newEvents'']
      \<or> (truthy (opt_member (member result ''metadata'') ''validationDuration'')
         \<and> \<not> printable (member (member result ''metadata'') ''validationDuration''))
      \<or> (truthy (opt_member (member result ''metadata'') ''agentVersion'')
         \<and> \<not> printable (member (member result ''metadata'') ''agentVersion'')))"

text \<open>The data model of the specification (its section 3). A location is an object with
  a string \<^verbatim>\<open>path\<close>, an integer \<^verbatim>\<open>line\<close> and, optionally, a string \<^verbatim>\<open>code\<close>. An event is an
  object with a string \<^verbatim>\<open>name\<close>, a \<^verbatim>\<open>status\<close> among the four and, optionally, a string
  \<^verbatim>\<open>message\<close>, an array \<^verbatim>\<open>implementation\<close> of locations and an object \<^verbatim>\<open>properties\<close>. A
  validation result is an object with a boolean \<^verbatim>\<open>valid\<close>, a \<^verbatim>\<open>summary\<close> of five integer
  counts, an array \<^verbatim>\<open>events\<close> of events, a boolean \<^verbatim>\<open>trackingPlanUpdated\<close> and, optionally,
  an object \<^verbatim>\<open>metadata\<close> whose \<^verbatim>\<open>validationDuration\<close> and \<^verbatim>\<open>agentVersion\<close>, when present, are
  numbers or strings.\<close>

fun is_number :: "jsval \<Rightarrow> bool" where
  "is_number (Num n) = True"
| "is_number _ = False"

fun is_boolean :: "jsval \<Rightarrow> bool" where
  "is_boolean (Bool b) = True"
| "is_boolean _ = False"

fun is_plain_object :: "jsval \<Rightarrow> bool" where
  "is_plain_object (Obj kvs) = True"
| "is_plain_object _ = False"

fun is_scalar :: "jsval \<Rightarrow> bool" where
  "is_scalar Undefined = True"
| "is_scalar (Num n) = True"
| "is_scalar (Str s) = True"
| "is_scalar _ = False"

definition conforming_location :: "jsval \<Rightarrow> bool" where
  "conforming_location l =
     (is_plain_object l
      \<and> is_string (member l ''path'')
      \<and> is_number (member l ''line'')
      \<and> (member l ''code'' = Undefined \<or> is_string (member l ''code'')))"

definition conforming_event :: "jsval \<Rightarrow> bool" where
  "conforming_event e =
     (is_plain_object e
      \<and> is_string (member e ''name'')
      \<and> member e ''status'' \<in> {Str ''valid'', Str ''invalid'', Str ''missing'', Str ''new''}
      \<and> (member e ''message'' = Undefined \<or> is_string (member e ''message''))
      \<and> (case member e ''implementation'' of
            Undefined \<Rightarrow> True
          | Arr ls \<Rightarrow> list_all conforming_location ls
          | _ \<Rightarrow> False)
      \<and> (member e ''properties'' = Undefined \<or> is_plain_object (member e ''properties'')))"

definition conforming_result :: "jsval \<Rightarrow> bool" where
  "conforming_result r =
     (is_plain_object r
      \<and> is_boolean (member r ''valid'')
      \<and> is_plain_object (member r ''summary'')
      \<and> list_all (\<lambda>k. is_number (member (member r ''summary'') k))
           [''totalEvents'', ''validEvents'', ''invalidEvents'', ''missingEvents'', ''newEvents'']
      \<and> (case member r ''events'' of Arr es \<Rightarrow> list_all conforming_event es | _ \<Rightarrow> False)
      \<and> is_boolean (member r ''trackingPlanUpdated'')
      \<and> (member r ''metadata'' = Undefined
         \<or> (is_plain_object (member r ''metadata'')
            \<and> is_scalar (member (member r ''metadata'') ''validationDuration'')
            \<and> is_scalar (member (member r ''metadata'') ''agentVersion''))))"

subsection \<open>A sample environment\<close>

text \<open>The inputs are all set, the repository is \<^verbatim>\<open>o/r\<close>, and both services answer: the
  validation service with \<open>body\<close>, the hosting service by accepting the review. \<open>pr\<close> is the
  pull request of the payload, \<open>c\<close> and \<open>f\<close> the options \<^verbatim>\<open>comment\<close> and \<^verbatim>\<open>fail-on-invalid\<close>,
  \<open>tok\<close> the token.\<close>

definition sample_env :: "jsval \<Rightarrow> jsval \<Rightarrow> bool \<Rightarrow> bool \<Rightarrow> string option \<Rightarrow> env" where
  "sample_env pr body c f tok =
     \<lparr>getInput = (\<lambda>name required. Inr (if name = ''api-url'' then ''https://api.test'' else ''k'')),
      getBooleanInput = (\<lambda>name. Inr (if name = ''comment'' then c
                                       else if name = ''fail-on-invalid'' then f else False)),
      context_repo = Inr (Str ''o'', Str ''r''),
      pull_request = pr,
      GITHUB_TOKEN = tok,
      axios_post = (\<lambda>endpoint request hs. Inr body),
      createReview = (\<lambda>params. None),
      string_gt_zero = (\<lambda>s. False)\<rparr>"

text \<open>The inputs collected in the sample environment when the trigger is not a pull
  request.\<close>

definition sample_inputs :: "bool \<Rightarrow> bool \<Rightarrow> inputs" where
  "sample_inputs c f =
     \<lparr>apiKey = ''k'', trackingPlanId = ''k'', apiUrl = ''https://api.test'',
      holistic = False, delta = False, autoUpdate = False, overwrite = False,
      comment = c, failOnInvalid = f,
      validationRequest =
        Obj [(''repositoryUrl'', Str ''https://github.com/o/r''),
             (''trackingPlanId'', Str ''k''),
             (''options'',
                Obj [(''holistic'', Bool False),
                     (''delta'', Bool False),
                     (''autoUpdateTrackingPlan'', Bool False),
                     (''overwriteExisting'', Bool False),
                     (''comment'', Bool c)]),
             (''prDetails'', Obj [])]\<rparr>"

text \<open>A pull request, an implementation location, an event and a result to run on.\<close>

definition sample_pr :: jsval where
  "sample_pr = Obj [(''number'', Num 7), (''head'', Obj [(''sha'', Str ''h'')]),
                    (''base'', Obj [(''sha'', Str ''b'')])]"

definition sample_location :: jsval where
  "sample_location = Obj [(''path'', Str ''a.js''), (''line'', Num 10)]"

definition sample_event :: "string \<Rightarrow> string \<Rightarrow> jsval list \<Rightarrow> jsval" where
  "sample_event n st locs =
     Obj [(''name'', Str n), (''status'', Str st), (''implementation'', Arr locs)]"

definition sample_result :: "jsval list \<Rightarrow> jsval" where
  "sample_result es =
     Obj [(''valid'', Bool False), (''summary'', Obj [(''invalidEvents'', Num 1)]),
          (''events'', Arr es)]"

definition three_missing :: jsval where
  "three_missing = sample_result [sample_event ''A'' ''missing'' [],
                                  sample_event ''B'' ''missing'' [],
                                  sample_event ''C'' ''missing'' []]"

text \<open>An environment like the sample one with a pull request, the option \<^verbatim>\<open>comment\<close> true
  and no token, in which the validation service answers with the status 500.\<close>

definition failing_env :: env where
  "failing_env =
     (sample_env sample_pr Null True False None)
       \<lparr>axios_post := (\<lambda>endpoint request hs.
           Inl \<lparr>message = ''Request failed with status code 500'',
                response = Some (500, Obj [(''error'', Str ''bad request'')])\<rparr>)\<rparr>"

text \<open>The inputs collected in the sample environment with the sample pull request.\<close>

definition sample_pr_inputs :: "bool \<Rightarrow> bool \<Rightarrow> inputs" where
  "sample_pr_inputs c f =
     (sample_inputs c f)
       \<lparr>validationRequest :=
           Obj [(''repositoryUrl'', Str ''https://github.com/o/r''),
                (''trackingPlanId'', Str ''k''),
                (''options'',
                   Obj [(''holistic'', Bool False),
                        (''delta'', Bool False),
                        (''autoUpdateTrackingPlan'', Bool False),
                        (''overwriteExisting'', Bool False),
                        (''comment'', Bool c)]),
                (''prDetails'',
                   Obj [(''prNumber'', Num 7), (''headSha'', Str ''h''),
                        (''baseSha'', Str ''b'')])]\<rparr>"

text \<open>A result of the data model: invalid, with one invalid event at a location.\<close>

definition conforming_sample :: jsval where
  "conforming_sample =
     Obj [(''valid'', Bool False),
          (''summary'', Obj [(''totalEvents'', Num 1), (''validEvents'', Num 0),
                             (''invalidEvents'', Num 1), (''missingEvents'', Num 0),
                             (''newEvents'', Num 0)]),
          (''events'',
             Arr [Obj [(''name'', Str ''A''), (''status'', Str ''invalid''),
                       (''message'', Str ''wrong type''),
                       (''implementation'',
                          Arr [Obj [(''path'', Str ''a.js''), (''line'', Num 10),
                                    (''code'', Str '' track() '')]]),
                       (''properties'', Obj [(''p'', Str ''string'')])]]),
          (''trackingPlanUpdated'', Bool False)]"

section \<open>Properties of the embedding\<close>

lemma response_ok_iff: "response_ok v \<longleftrightarrow> non_null_object v"
  by (cases v) (simp_all add: response_ok_def)

lemma failed_append: "failed (u @ w) \<longleftrightarrow> failed u \<or> failed w"
  by (induction u rule: failed.induct) simp_all

lemma outputs_append: "outputs (u @ w) = outputs u @ outputs w"
  by (induction u rule: outputs.induct) simp_all

lemma review_calls_append: "review_calls (u @ w) = review_calls u @ review_calls w"
  by (induction u rule: review_calls.induct) simp_all

lemma bind_exn_Inr: "bind_exn m f = Inr y \<longleftrightarrow> (\<exists>a. m = Inr a \<and> f a = Inr y)"
  by (cases m) (simp_all add: bind_exn_def)

lemma bind_exn_isl: "isl (bind_exn m f) \<longleftrightarrow> isl m \<or> (\<exists>a. m = Inr a \<and> isl (f a))"
  by (cases m) (simp_all add: bind_exn_def)

lemma isl_exists: "isl r \<or> (\<exists>a. r = Inr a)"
  by (cases r) simp_all

lemma not_isl_iff: "\<not> isl r \<longleftrightarrow> (\<exists>a. r = Inr a)"
  by (cases r) simp_all

subsection \<open>Conversions\<close>

lemma to_string_throws:
  "isl (to_string v) \<longleftrightarrow> \<not> printable v"
  "isl (strings_of xs) \<longleftrightarrow> \<not> all_printable xs"
  by (induction v and xs rule: to_string_strings_of.induct)
     (auto split: sum.splits option.splits)

lemma to_string_text: "to_string v = Inr s \<Longrightarrow> text_of v = s"
  by (simp add: text_of_def)

lemma printable_text: "printable v \<Longrightarrow> to_string v = Inr (text_of v)"
  using to_string_throws(1) [of v] by (cases "to_string v") (simp_all add: text_of_def)

lemma gt_zero_throws: "isl (gt_zero E v) \<longleftrightarrow> \<not> printable v"
proof (cases v)
  case (Arr xs)
  then show ?thesis
    using to_string_throws(1) [of "Arr xs"] by (simp add: bind_exn_isl del: to_string.simps)
next
  case (Obj kvs)
  then show ?thesis by (simp split: option.splits)
qed simp_all

lemma template_Lit: "template (Lit s # ps) = Inr r \<longleftrightarrow> (\<exists>r'. template ps = Inr r' \<and> r = s @ r')"
  by (cases "template ps") auto

lemma template_Sub:
  "template (Sub v # ps) = Inr r
     \<longleftrightarrow> (\<exists>s r'. to_string v = Inr s \<and> template ps = Inr r' \<and> r = s @ r')"
  by (cases "to_string v"; cases "template ps") auto

lemma template_throws: "isl (template ps) \<longleftrightarrow> (\<exists>v. Sub v \<in> set ps \<and> \<not> printable v)"
proof (induction ps rule: template.induct)
  case 1
  then show ?case by simp
next
  case (2 s ps)
  then show ?case by (cases "template ps") auto
next
  case (3 v ps)
  then show ?case
    using to_string_throws(1) [of v]
    by (cases "to_string v"; cases "template ps") auto
qed

subsection \<open>Sequencing\<close>

lemma io_bind_Inr:
  "io_bind m f = (w, Inr y) \<longleftrightarrow> (\<exists>w1 a w2. m = (w1, Inr a) \<and> f a = (w2, Inr y) \<and> w = w1 @ w2)"
  by (cases m; cases "snd m") (auto simp: io_bind_def split: prod.splits)

lemma io_bind_isl:
  "isl (snd (io_bind m f)) \<longleftrightarrow> isl (snd m) \<or> (\<exists>a. snd m = Inr a \<and> isl (snd (f a)))"
  by (cases m; cases "snd m") (auto simp: io_bind_def split: prod.splits)

lemma io_bind_fst:
  "snd m = Inr a \<Longrightarrow> fst (io_bind m f) = fst m @ fst (f a)"
  by (cases m) (auto simp: io_bind_def split: prod.splits)

lemma io_bind_all:
  assumes m: "list_all P (fst m)" and f: "\<And>a. list_all P (fst (f a))"
  shows "list_all P (fst (io_bind m f))"
proof -
  obtain w r where mw: "m = (w, r)" by (cases m)
  show ?thesis
  proof (cases r)
    case (Inl e)
    with m mw show ?thesis by (simp add: io_bind_def)
  next
    case (Inr a)
    obtain w' r' where fa: "f a = (w', r')" by (cases "f a")
    with f [of a] have "list_all P w'" by simp
    with m mw Inr fa show ?thesis by (simp add: io_bind_def)
  qed
qed

lemma emit_all: "list_all P w \<Longrightarrow> list_all P (fst (emit w))"
  by (simp add: emit_def)

lemma io_of_all: "list_all P (fst (io_of r))"
  by (simp add: io_of_def)

lemma do_all_all:
  "(\<And>m. m \<in> set ms \<Longrightarrow> list_all P (fst m)) \<Longrightarrow> list_all P (fst (do_all ms))"
  by (induction ms) (simp_all add: emit_def io_bind_all)

lemma do_all_throws: "isl (snd (do_all ms)) \<longleftrightarrow> (\<exists>m\<in>set ms. isl (snd m))"
proof (induction ms)
  case Nil
  then show ?case by (simp add: emit_def)
next
  case (Cons m ms)
  have "(\<exists>a. snd m = Inr a) \<longleftrightarrow> \<not> isl (snd m)"
    by (cases "snd m") simp_all
  with Cons show ?case by (auto simp: io_bind_isl)
qed

lemma do_all_fst:
  "\<not> isl (snd (do_all (m # ms))) \<Longrightarrow> fst (do_all (m # ms)) = fst m @ fst (do_all ms)"
proof -
  assume "\<not> isl (snd (do_all (m # ms)))"
  then have "\<not> isl (snd m)" using do_all_throws [of "m # ms"] by simp
  then obtain a where "snd m = Inr a" by (cases "snd m") simp_all
  then show ?thesis by (simp add: io_bind_fst)
qed

lemma log_throws: "isl (snd (log logger ps)) \<longleftrightarrow> (\<exists>v. Sub v \<in> set ps \<and> \<not> printable v)"
  using template_throws [of ps] by (cases "template ps") (simp_all add: log_def)

lemma log_all: "(\<And>s. P (logger s)) \<Longrightarrow> list_all P (fst (log logger ps))"
  by (cases "template ps") (simp_all add: log_def)

lemma log_fst:
  "\<not> isl (snd (log logger ps)) \<Longrightarrow> \<exists>s. template ps = Inr s \<and> fst (log logger ps) = [logger s]"
  by (cases "template ps") (simp_all add: log_def)

subsection \<open>When the report throws\<close>

lemma log_summary_throws:
  "isl (snd (log_summary result))
     \<longleftrightarrow> list_ex (\<lambda>k. \<not> printable (summary_count result k))
           [''totalEvents'', ''validEvents'', ''invalidEvents'', ''missingEvents'', ''newEvents'']"
  by (auto simp: log_summary_def do_all_throws log_throws emit_def simp del: do_all.simps)

lemma has_implementation_throws:
  "isl (has_implementation E event)
     \<longleftrightarrow> truthy (member event ''implementation'')
         \<and> \<not> printable (member (member event ''implementation'') ''length'')"
  by (simp add: has_implementation_def gt_zero_throws)

lemma log_code_throws:
  "isl (snd (if truthy code then
               (case code of
                  Str c \<Rightarrow> log logger [Lit ''   Code: '', Lit (trim c)]
                | _ \<Rightarrow> io_of (Inl (js_error ''impl.code.trim is not a function'')))
             else emit []))
   \<longleftrightarrow> truthy code \<and> \<not> is_string code"
  by (cases code) (simp_all add: log_throws io_of_def emit_def)

lemma log_implementation_throws:
  "isl (snd (log_implementation logger E event)) \<longleftrightarrow> location_unreadable E event"
proof (cases "has_implementation E event")
  case (Inl e)
  then have "isl (has_implementation E event)" by simp
  then have "truthy (member event ''implementation'')
         \<and> \<not> printable (member (member event ''implementation'') ''length'')"
    unfolding has_implementation_throws .
  with Inl show ?thesis
    by (simp add: log_implementation_def location_unreadable_def io_bind_def io_of_def)
next
  case (Inr present)
  then have "\<not> isl (has_implementation E event)" by simp
  then have n: "\<not> (truthy (member event ''implementation'')
         \<and> \<not> printable (member (member event ''implementation'') ''length''))"
    unfolding has_implementation_throws .
  show ?thesis
  proof (cases present)
    case False
    with Inr n show ?thesis
      unfolding location_unreadable_def implemented_def
      by (simp add: log_implementation_def io_bind_def io_of_def emit_def)
  next
    case True
    with Inr have i: "implemented E event" by (simp add: implemented_def)
    have "isl (snd (log_implementation logger E event))
          \<longleftrightarrow> nullish (index0 (member event ''implementation''))
              \<or> \<not> printable (member (index0 (member event ''implementation'')) ''path'')
              \<or> \<not> printable (member (index0 (member event ''implementation'')) ''line'')
              \<or> (truthy (member (index0 (member event ''implementation'')) ''code'')
                 \<and> \<not> is_string (member (index0 (member event ''implementation'')) ''code''))"
      using Inr True
      by (auto simp: log_implementation_def Let_def io_bind_isl io_of_def dot_def
            do_all_throws log_throws log_code_throws simp del: do_all.simps)
    with i n show ?thesis
      unfolding location_unreadable_def by blast
  qed
qed

lemma log_properties_returns: "\<not> isl (snd (log_properties logger label event))"
  by (simp add: log_properties_def log_throws emit_def)

lemma log_message_throws:
  "isl (snd (if truthy (member event ''message'')
             then log logger [Lit label, Sub (member event ''message'')]
             else emit []))
   \<longleftrightarrow> message_unreadable event"
  by (simp add: message_unreadable_def log_throws emit_def)

lemma log_invalid_event_throws:
  "isl (snd (log_invalid_event E event i))
     \<longleftrightarrow> \<not> printable (member event ''name'') \<or> message_unreadable event
         \<or> location_unreadable E event"
  by (simp add: log_invalid_event_def do_all_throws log_throws log_message_throws
        log_implementation_throws log_properties_returns del: do_all.simps)

lemma log_missing_event_throws:
  "isl (snd (log_missing_event E event i))
     \<longleftrightarrow> \<not> printable (member event ''name'') \<or> message_unreadable event"
  by (simp add: log_missing_event_def do_all_throws log_throws log_message_throws
        log_properties_returns del: do_all.simps)

lemma log_new_event_throws:
  "isl (snd (log_new_event E event i))
     \<longleftrightarrow> \<not> printable (member event ''name'') \<or> location_unreadable E event"
  by (simp add: log_new_event_def do_all_throws log_throws
        log_implementation_throws log_properties_returns del: do_all.simps)

lemma for_each_throws:
  assumes "\<And>e i. isl (snd (f e i)) \<longleftrightarrow> P e"
  shows "isl (snd (for_each f i es)) \<longleftrightarrow> list_ex P es"
proof (induction es arbitrary: i)
  case Nil
  then show ?case by (simp add: emit_def)
next
  case (Cons e es)
  have "(\<exists>a. snd (f e i) = Inr a) \<longleftrightarrow> \<not> P e"
    using assms [of e i] by (cases "snd (f e i)") auto
  with Cons assms show ?case
    by (auto simp: io_bind_isl)
qed

lemma filter_events_Inr:
  "filter_events st es = Inr r \<Longrightarrow> r = filter (\<lambda>e. member e ''status'' = Str st) es"
proof (induction es arbitrary: r)
  case Nil
  then show ?case by simp
next
  case (Cons e es)
  then show ?case
    by (cases "filter_events st es") (auto simp: bind_exn_def dot_def split: if_splits)
qed

lemma filter_status_Inr:
  "filter_status st result = Inr r \<Longrightarrow> r = view st result"
  unfolding filter_status_def events_of_def view_def
  by (cases "member result ''events''") (auto dest: filter_events_Inr)

lemma filter_events_throws: "isl (filter_events st es) \<longleftrightarrow> list_ex nullish es"
proof (induction es)
  case Nil
  then show ?case by simp
next
  case (Cons e es)
  then show ?case
    by (cases "filter_events st es") (auto simp: bind_exn_def dot_def)
qed

lemma filter_status_throws:
  "isl (filter_status st result)
     \<longleftrightarrow> (case member result ''events'' of
            Undefined \<Rightarrow> False | Null \<Rightarrow> False | Arr es \<Rightarrow> list_ex nullish es | _ \<Rightarrow> True)"
  by (cases "member result ''events''") (simp_all add: filter_status_def filter_events_throws)

lemma log_events_throws:
  assumes "\<And>e i. isl (snd (entry e i)) \<longleftrightarrow> P e"
  shows "isl (snd (log_events st header entry result))
         \<longleftrightarrow> isl (filter_status st result) \<or> list_ex P (view st result)"
proof (cases "filter_status st result")
  case (Inl e)
  then show ?thesis by (simp add: log_events_def io_bind_def io_of_def)
next
  case (Inr evs)
  from filter_status_Inr [OF this] Inr show ?thesis
    using for_each_throws [of entry P 0 evs, OF assms]
    by (cases evs) (auto simp: log_events_def io_bind_isl io_of_def emit_def)
qed

lemma report_throws_stages:
  "isl (snd (report E result))
     \<longleftrightarrow> isl (snd (log_summary result))
         \<or> isl (snd (log_invalid_events E result))
         \<or> isl (snd (log_missing_events E result))
         \<or> isl (snd (log_new_events E result))"
  using isl_exists [of "snd (log_summary result)"]
        isl_exists [of "snd (log_invalid_events E result)"]
        isl_exists [of "snd (log_missing_events E result)"]
        isl_exists [of "snd (log_new_events E result)"]
  by (auto simp: report_def io_bind_isl emit_def io_of_def)

lemma list_ex_view:
  "list_ex P (view st result)
     \<longleftrightarrow> list_ex (\<lambda>e. member e ''status'' = Str st \<and> P e) (events_of result)"
  unfolding view_def by (induction "events_of result") (auto simp: list_ex_iff)

lemma report_throws_iff: "isl (snd (report E result)) \<longleftrightarrow> unreadable E result"
proof -
  let ?s = "list_ex (\<lambda>k. \<not> printable (summary_count result k))
           [''totalEvents'', ''validEvents'', ''invalidEvents'', ''missingEvents'', ''newEvents'']"
  let ?f = "case member result ''events'' of
            Undefined \<Rightarrow> False | Null \<Rightarrow> False | Arr es \<Rightarrow> list_ex nullish es | _ \<Rightarrow> True"
  have "isl (snd (report E result))
        \<longleftrightarrow> ?s \<or> ?f
            \<or> list_ex (\<lambda>e. \<not> printable (member e ''name'') \<or> message_unreadable e
                           \<or> location_unreadable E e) (view ''invalid'' result)
            \<or> list_ex (\<lambda>e. \<not> printable (member e ''name'') \<or> message_unreadable e)
                 (view ''missing'' result)
            \<or> list_ex (\<lambda>e. \<not> printable (member e ''name'') \<or> location_unreadable E e)
                 (view ''new'' result)"
    unfolding report_throws_stages log_invalid_events_def log_missing_events_def
      log_new_events_def log_summary_throws
      log_events_throws [of "log_invalid_event E", OF log_invalid_event_throws]
      log_events_throws [of "log_missing_event E", OF log_missing_event_throws]
      log_events_throws [of "log_new_event E", OF log_new_event_throws]
      filter_status_throws
    by blast
  also have "\<dots> \<longleftrightarrow> unreadable E result"
  proof (cases "member result ''events''")
    case (Arr es)
    then show ?thesis
      unfolding unreadable_def list_ex_view events_of_def
      by (simp add: list_ex_iff entry_unreadable_def) blast
  qed (simp_all add: unreadable_def view_def events_of_def)
  finally show ?thesis .
qed

subsection \<open>The effects of each stage\<close>

lemma logs_quiet:
  "list_all is_log w \<Longrightarrow> outputs w = [] \<and> review_calls w = [] \<and> \<not> failed w"
proof (induction w)
  case Nil
  then show ?case by simp
next
  case (Cons a w)
  then show ?case by (cases a) simp_all
qed

lemma log_Lit_all:
  "(\<And>r. P (logger (s @ r))) \<Longrightarrow> list_all P (fst (log logger (Lit s # ps)))"
  by (cases "template ps") (simp_all add: log_def)

lemma log_code_all:
  "(\<And>r. P (logger (''   Code: '' @ r))) \<Longrightarrow>
   list_all P (fst (if truthy code then
               (case code of
                  Str c \<Rightarrow> log logger [Lit ''   Code: '', Lit (trim c)]
                | _ \<Rightarrow> io_of (Inl (js_error ''impl.code.trim is not a function'')))
             else emit []))"
  by (cases code) (simp_all add: io_of_def emit_def log_def)

lemma log_implementation_all:
  assumes "\<And>r. P (logger (''   Location: '' @ r))" and "\<And>r. P (logger (''   Code: '' @ r))"
  shows "list_all P (fst (log_implementation logger E event))"
proof -
  have "list_all P (fst (do_all
          [log logger [Lit ''   Location: '', Sub path, Lit '':'', Sub line],
           if truthy code then
             (case code of
                Str c \<Rightarrow> log logger [Lit ''   Code: '', Lit (trim c)]
              | _ \<Rightarrow> io_of (Inl (js_error ''impl.code.trim is not a function'')))
           else emit []]))" for path line code
    using log_code_all [of P logger code, OF assms(2)]
      log_Lit_all [of P logger "''   Location: ''", OF assms(1)]
    by (intro do_all_all) auto
  then show ?thesis
    unfolding log_implementation_def Let_def
    by (intro io_bind_all io_of_all) (simp add: emit_def io_bind_all io_of_all)
qed

lemma log_properties_all:
  "(\<And>r. P (logger (''   '' @ r))) \<Longrightarrow> list_all P (fst (log_properties logger label event))"
  unfolding log_properties_def using log_Lit_all [of P logger "''   ''"]
  by (simp add: emit_def)

lemma log_message_all:
  "(\<And>r. P (logger (label @ r))) \<Longrightarrow>
   list_all P (fst (if truthy (member event ''message'')
             then log logger [Lit label, Sub (member event ''message'')]
             else emit []))"
  using log_Lit_all [of P logger label] by (simp add: emit_def)

lemma for_each_all:
  "(\<And>e i. list_all P (fst (f e i))) \<Longrightarrow> list_all P (fst (for_each f i es))"
  by (induction es arbitrary: i) (simp_all add: emit_def io_bind_all)

lemma log_invalid_event_logs: "list_all is_log (fst (log_invalid_event E event i))"
  unfolding log_invalid_event_def
  by (intro do_all_all)
     (auto intro!: log_all log_implementation_all log_properties_all simp: emit_def)

lemma log_missing_event_logs: "list_all is_log (fst (log_missing_event E event i))"
  unfolding log_missing_event_def
  by (intro do_all_all)
     (auto intro!: log_all log_properties_all simp: emit_def)

lemma log_new_event_logs: "list_all is_log (fst (log_new_event E event i))"
  unfolding log_new_event_def
  by (intro do_all_all)
     (auto intro!: log_all log_implementation_all log_properties_all simp: emit_def)

lemma log_events_all:
  "(\<And>n. P (header n)) \<Longrightarrow> (\<And>e i. list_all P (fst (entry e i))) \<Longrightarrow>
   list_all P (fst (log_events st header entry result))"
  unfolding log_events_def
  by (intro io_bind_all io_of_all) (auto intro!: io_bind_all emit_all for_each_all io_of_all)

lemma log_events_view:
  "log_events st header entry result = (w, Inr evs) \<Longrightarrow> evs = view st result"
  unfolding log_events_def io_bind_Inr by (auto simp: io_of_def dest: filter_status_Inr)

lemma log_summary_logs: "list_all is_log (fst (log_summary result))"
  unfolding log_summary_def
  by (intro do_all_all) (auto intro!: log_all simp: emit_def)

lemma log_invalid_events_logs: "list_all is_log (fst (log_invalid_events E result))"
  unfolding log_invalid_events_def by (intro log_events_all log_invalid_event_logs) simp

lemma log_missing_events_logs: "list_all is_log (fst (log_missing_events E result))"
  unfolding log_missing_events_def by (intro log_events_all log_missing_event_logs) simp

lemma log_new_events_logs: "list_all is_log (fst (log_new_events E result))"
  unfolding log_new_events_def by (intro log_events_all log_new_event_logs) simp

subsection \<open>The entries of the log\<close>

lemma show_nat_digit: "\<exists>d r. show_nat n = d # r \<and> d \<in> set ''0123456789''"
proof (induction n rule: show_nat.induct)
  case (1 n)
  show ?case
  proof (cases "n < 10")
    case True
    then have "''0123456789'' ! n \<in> set ''0123456789''"
      by (intro nth_mem) simp
    with True show ?thesis
      by (subst show_nat.simps) (simp add: digit_char_def)
  next
    case False
    with 1 obtain d r where "show_nat (n div 10) = d # r" and "d \<in> set ''0123456789''"
      by blast
    with False show ?thesis
      by (subst show_nat.simps) simp
  qed
qed

lemma entry_starts: "starts_entry (nl @ show_nat n @ r)"
proof -
  obtain d t where "show_nat n = d # t" and "d \<in> set ''0123456789''"
    using show_nat_digit by blast
  then show ?thesis by (simp add: nl_def)
qed

lemma entry_line:
  assumes "\<not> isl (snd (log logger [Lit nl, Lit (show_nat n), Lit ''. Event: '', Sub v]))"
  shows "fst (log logger [Lit nl, Lit (show_nat n), Lit ''. Event: '', Sub v])
         = [logger (nl @ show_nat n @ ''. Event: '' @ text_of v)]"
proof -
  from log_fst [OF assms] obtain s where
    t: "template [Lit nl, Lit (show_nat n), Lit ''. Event: '', Sub v] = Inr s"
    and f: "fst (log logger [Lit nl, Lit (show_nat n), Lit ''. Event: '', Sub v]) = [logger s]"
    by blast
  from t obtain x where "to_string v = Inr x" and "s = nl @ show_nat n @ ''. Event: '' @ x"
    unfolding template_Lit template_Sub by auto
  with f show ?thesis by (simp add: text_of_def)
qed

lemma log_invalid_event_entries:
  assumes "\<not> isl (snd (log_invalid_event E e i))"
  shows "filter is_entry (fst (log_invalid_event E e i))
         = [Warning (nl @ show_nat (i + 1) @ ''. Event: '' @ text_of (member e ''name''))]"
proof -
  let ?first = "log Warning [Lit nl, Lit (show_nat (i + 1)), Lit ''. Event: '',
                     Sub (member e ''name'')]"
  let ?rest = "[if truthy (member e ''message'')
        then log Warning [Lit ''   Error: '', Sub (member e ''message'')]
        else emit [],
        log_implementation Warning E e,
        log_properties Warning ''Required'' e]"
  have d: "log_invalid_event E e i = do_all (?first # ?rest)"
    by (simp add: log_invalid_event_def)
  from assms have "\<not> isl (snd ?first)"
    unfolding d do_all_throws by simp
  from entry_line [OF this]
  have 1: "fst ?first = [Warning (nl @ show_nat (i + 1) @ ''. Event: '' @ text_of (member e ''name''))]" .
  have m: "list_all (\<lambda>x. \<not> is_entry x)
             (fst (if truthy (member e ''message'')
                   then log Warning [Lit ''   Error: '', Sub (member e ''message'')]
                   else emit []))"
    by (rule log_message_all) simp
  have "list_all (\<lambda>x. \<not> is_entry x) (fst (do_all ?rest))"
    using m by (intro do_all_all) (auto intro!: log_implementation_all log_properties_all)
  then have 2: "filter is_entry (fst (do_all ?rest)) = []"
    by (simp add: list_all_iff filter_empty_conv)
  from assms have "fst (log_invalid_event E e i) = fst ?first @ fst (do_all ?rest)"
    unfolding d by (rule do_all_fst)
  then show ?thesis
    unfolding 1 using 2 entry_starts [of "i + 1"] by simp
qed

lemma log_missing_event_entries:
  assumes "\<not> isl (snd (log_missing_event E e i))"
  shows "filter is_entry (fst (log_missing_event E e i))
         = [Warning (nl @ show_nat (i + 1) @ ''. Event: '' @ text_of (member e ''name''))]"
proof -
  let ?first = "log Warning [Lit nl, Lit (show_nat (i + 1)), Lit ''. Event: '',
                     Sub (member e ''name'')]"
  let ?rest = "[if truthy (member e ''message'')
        then log Warning [Lit ''   Note: '', Sub (member e ''message'')]
        else emit [],
        log_properties Warning ''Required'' e]"
  have d: "log_missing_event E e i = do_all (?first # ?rest)"
    by (simp add: log_missing_event_def)
  from assms have "\<not> isl (snd ?first)"
    unfolding d do_all_throws by simp
  from entry_line [OF this]
  have 1: "fst ?first = [Warning (nl @ show_nat (i + 1) @ ''. Event: '' @ text_of (member e ''name''))]" .
  have m: "list_all (\<lambda>x. \<not> is_entry x)
             (fst (if truthy (member e ''message'')
                   then log Warning [Lit ''   Note: '', Sub (member e ''message'')]
                   else emit []))"
    by (rule log_message_all) simp
  have "list_all (\<lambda>x. \<not> is_entry x) (fst (do_all ?rest))"
    using m by (intro do_all_all) (auto intro!: log_properties_all)
  then have 2: "filter is_entry (fst (do_all ?rest)) = []"
    by (simp add: list_all_iff filter_empty_conv)
  from assms have "fst (log_missing_event E e i) = fst ?first @ fst (do_all ?rest)"
    unfolding d by (rule do_all_fst)
  then show ?thesis
    unfolding 1 using 2 entry_starts [of "i + 1"] by simp
qed

lemma log_new_event_entries:
  assumes "\<not> isl (snd (log_new_event E e i))"
  shows "filter is_entry (fst (log_new_event E e i))
         = [Info (nl @ show_nat (i + 1) @ ''. Event: '' @ text_of (member e ''name''))]"
proof -
  let ?first = "log Info [Lit nl, Lit (show_nat (i + 1)), Lit ''. Event: '',
                     Sub (member e ''name'')]"
  let ?rest = "[log_implementation Info E e,
        log_properties Info ''Detected'' e]"
  have d: "log_new_event E e i = do_all (?first # ?rest)"
    by (simp add: log_new_event_def)
  from assms have "\<not> isl (snd ?first)"
    unfolding d do_all_throws by simp
  from entry_line [OF this]
  have 1: "fst ?first = [Info (nl @ show_nat (i + 1) @ ''. Event: '' @ text_of (member e ''name''))]" .
  have "list_all (\<lambda>x. \<not> is_entry x) (fst (do_all ?rest))"
    by (intro do_all_all)
       (auto intro!: log_implementation_all log_properties_all)
  then have 2: "filter is_entry (fst (do_all ?rest)) = []"
    by (simp add: list_all_iff filter_empty_conv)
  from assms have "fst (log_new_event E e i) = fst ?first @ fst (do_all ?rest)"
    unfolding d by (rule do_all_fst)
  then show ?thesis
    unfolding 1 using 2 entry_starts [of "i + 1"] by simp
qed

lemma for_each_entries:
  assumes "\<And>e i. \<not> isl (snd (f e i)) \<Longrightarrow>
             filter is_entry (fst (f e i))
             = [logger (nl @ show_nat (i + 1) @ ''. Event: '' @ text_of (member e ''name''))]"
    and "\<not> isl (snd (for_each f i es))"
  shows "filter is_entry (fst (for_each f i es))
         = map (\<lambda>(j, e). logger (nl @ show_nat (j + 1) @ ''. Event: ''
                                  @ text_of (member e ''name'')))
             (enumerate i es)"
  using assms(2)
proof (induction es arbitrary: i)
  case Nil
  then show ?case by (simp add: emit_def)
next
  case (Cons e es)
  from Cons.prems have a: "\<not> isl (snd (f e i))"
    by (simp add: io_bind_isl)
  then obtain u where u: "snd (f e i) = Inr u" by (cases "snd (f e i)") simp_all
  with Cons.prems have b: "\<not> isl (snd (for_each f (i + 1) es))"
    by (simp add: io_bind_isl)
  have "fst (for_each f i (e # es)) = fst (f e i) @ fst (for_each f (i + 1) es)"
    using io_bind_fst [OF u] by simp
  then show ?case
    using assms(1) [OF a] Cons.IH [OF b] by simp
qed

lemma log_events_entries:
  assumes "\<And>e i. \<not> isl (snd (entry e i)) \<Longrightarrow>
             filter is_entry (fst (entry e i))
             = [logger (nl @ show_nat (i + 1) @ ''. Event: '' @ text_of (member e ''name''))]"
    and "\<And>n. \<not> is_entry (header n)"
    and "log_events st header entry result = (w, Inr evs)"
  shows "filter is_entry w = entry_lines logger (view st result)"
proof -
  from assms(3) have v: "evs = view st result" by (rule log_events_view)
  from assms(3) obtain w1 u where
    b: "(if length evs > 0
         then io_bind (emit [header (length evs)]) (\<lambda>_. for_each entry 0 evs)
         else emit []) = (w1, Inr u)" and w: "w = w1"
    unfolding log_events_def io_bind_Inr by (auto simp: io_of_def)
  show ?thesis
  proof (cases "evs = []")
    case True
    with b w v show ?thesis by (simp add: emit_def entry_lines_def)
  next
    case False
    with b have "io_bind (emit [header (length evs)]) (\<lambda>_. for_each entry 0 evs)
                 = (w1, Inr u)"
      by simp
    then obtain w2 where f: "for_each entry 0 evs = (w2, Inr u)"
      and w1: "w1 = header (length evs) # w2"
      by (auto simp: io_bind_Inr emit_def)
    from f have "\<not> isl (snd (for_each entry 0 evs))" by simp
    from for_each_entries [of entry logger, OF assms(1) this] f
    have "filter is_entry w2 = entry_lines logger evs"
      by (simp add: entry_lines_def)
    with w w1 v assms(2) show ?thesis by simp
  qed
qed

lemma set_outputs_quiet:
  "\<not> failed (set_outputs result)" "review_calls (set_outputs result) = []"
  "filter is_entry (set_outputs result) = []"
  by (simp_all add: set_outputs_def)

lemma log_summary_entries: "filter is_entry (fst (log_summary result)) = []"
proof -
  have "list_all (\<lambda>x. \<not> is_entry x) (fst (log_summary result))"
    unfolding log_summary_def
    by (intro do_all_all) (auto intro!: log_Lit_all simp: emit_def)
  then show ?thesis by (simp add: list_all_iff filter_empty_conv)
qed

lemma report_Inr:
  assumes "report E result = (w, Inr (i, m))"
  shows "\<exists>l. list_all is_log l \<and> w = l @ set_outputs result
             \<and> i = view ''invalid'' result \<and> m = view ''missing'' result
             \<and> filter is_entry l
                 = entry_lines Warning (view ''invalid'' result)
                   @ entry_lines Warning (view ''missing'' result)
                   @ entry_lines Info (view ''new'' result)"
proof -
  from assms obtain w0 u w1 w2 w3 n where
    0: "log_summary result = (w0, Inr u)" and
    1: "log_invalid_events E result = (w1, Inr i)" and
    2: "log_missing_events E result = (w2, Inr m)" and
    3: "log_new_events E result = (w3, Inr n)" and
    w: "w = w0 @ w1 @ w2 @ w3 @ set_outputs result"
    unfolding report_def io_bind_Inr by (auto simp: emit_def io_of_def)
  from log_summary_logs [of result] 0 have l0: "list_all is_log w0" by simp
  from log_invalid_events_logs [of E result] 1 have l1: "list_all is_log w1" by simp
  from log_missing_events_logs [of E result] 2 have l2: "list_all is_log w2" by simp
  from log_new_events_logs [of E result] 3 have l3: "list_all is_log w3" by simp
  from log_summary_entries [of result] 0 have e0: "filter is_entry w0 = []" by simp
  have e1: "filter is_entry w1 = entry_lines Warning (view ''invalid'' result)"
    using 1 unfolding log_invalid_events_def
    by (rule log_events_entries [rotated 2])
       (simp_all add: log_invalid_event_entries cross_mark_def nl_def)
  have e2: "filter is_entry w2 = entry_lines Warning (view ''missing'' result)"
    using 2 unfolding log_missing_events_def
    by (rule log_events_entries [rotated 2])
       (simp_all add: log_missing_event_entries warning_sign_def nl_def)
  have e3: "filter is_entry w3 = entry_lines Info (view ''new'' result)"
    using 3 unfolding log_new_events_def
    by (rule log_events_entries [rotated 2])
       (simp_all add: log_new_event_entries new_button_def nl_def)
  from 1 have v1: "i = view ''invalid'' result"
    unfolding log_invalid_events_def by (rule log_events_view)
  from 2 have v2: "m = view ''missing'' result"
    unfolding log_missing_events_def by (rule log_events_view)
  define l where "l = w0 @ w1 @ w2 @ w3"
  have "list_all is_log l" using l0 l1 l2 l3 by (simp add: l_def)
  moreover have "w = l @ set_outputs result" using w by (simp add: l_def)
  moreover have "filter is_entry l
                 = entry_lines Warning (view ''invalid'' result)
                   @ entry_lines Warning (view ''missing'' result)
                   @ entry_lines Info (view ''new'' result)"
    using e0 e1 e2 e3 by (simp add: l_def)
  ultimately show ?thesis using v1 v2 by blast
qed

lemma report_Inl:
  assumes "report E result = (w, Inl e)"
  shows "list_all is_log w"
proof -
  have "list_all is_log
     (fst (io_bind (log_summary result) (\<lambda>_.
           io_bind (log_invalid_events E result) (\<lambda>invalidEvents.
           io_bind (log_missing_events E result) (\<lambda>missingEvents.
           io_bind (log_new_events E result) (\<lambda>newEvents. io_of (Inr ())))))))"
    by (intro io_bind_all log_summary_logs log_invalid_events_logs
          log_missing_events_logs log_new_events_logs io_of_all)
  moreover obtain w0 r0 where 0: "log_summary result = (w0, r0)"
    by (cases "log_summary result")
  moreover obtain w1 r1 where 1: "log_invalid_events E result = (w1, r1)"
    by (cases "log_invalid_events E result")
  moreover obtain w2 r2 where 2: "log_missing_events E result = (w2, r2)"
    by (cases "log_missing_events E result")
  moreover obtain w3 r3 where 3: "log_new_events E result = (w3, r3)"
    by (cases "log_new_events E result")
  ultimately show ?thesis
    using assms
    by (cases r0; cases r1; cases r2; cases r3)
       (auto simp: report_def io_bind_def emit_def io_of_def)
qed

lemma report_starts:
  "\<exists>w r. report E result =
     (Info (''Validation completed with ''
            @ (if truthy (member result ''valid'') then ''success'' else ''errors'')) # w, r)"
proof -
  define rest where "rest =
       [log Info [Lit ''Total events: '', Sub (summary_count result ''totalEvents'')],
        log Info [Lit ''Valid events: '', Sub (summary_count result ''validEvents'')],
        log Info [Lit ''Invalid events: '', Sub (summary_count result ''invalidEvents'')],
        log Info [Lit ''Missing events: '', Sub (summary_count result ''missingEvents'')],
        log Info [Lit ''New events: '', Sub (summary_count result ''newEvents'')],
        if truthy (member result ''trackingPlanUpdated'')
        then log Info [Lit ''Tracking plan was automatically updated with new events'']
        else emit []]"
  define first where "first = Info (''Validation completed with ''
            @ (if truthy (member result ''valid'') then ''success'' else ''errors''))"
  obtain w r where rest: "do_all rest = (w, r)"
    by (rule prod.exhaust)
  have "log_summary result
        = io_bind (log Info [Lit ''Validation completed with '',
                    Lit (if truthy (member result ''valid'') then ''success'' else ''errors'')])
            (\<lambda>_. do_all rest)"
    unfolding log_summary_def rest_def by (subst do_all.simps(2)) (rule refl)
  also have "\<dots> = io_bind ([first], Inr ()) (\<lambda>_. do_all rest)"
    by (simp add: log_def first_def)
  also have "\<dots> = (first # w, r)"
    by (simp add: io_bind_def rest)
  finally have s: "log_summary result = (first # w, r)" .
  have "\<exists>w r. report E result = (first # w, r)"
    unfolding report_def s
    by (cases r) (auto simp: io_bind_def split: prod.splits sum.splits)
  then show ?thesis unfolding first_def .
qed

lemma report_returns:
  assumes "\<not> unreadable E result"
  obtains l where
    "report E result
       = (l @ set_outputs result, Inr (view ''invalid'' result, view ''missing'' result))"
    and "list_all is_log l"
    and "filter is_entry l
           = entry_lines Warning (view ''invalid'' result)
             @ entry_lines Warning (view ''missing'' result)
             @ entry_lines Info (view ''new'' result)"
proof -
  from assms have "\<not> isl (snd (report E result))"
    by (simp add: report_throws_iff)
  then obtain w i m where r: "report E result = (w, Inr (i, m))"
    by (cases "report E result"; cases "snd (report E result)") auto
  from report_Inr [OF r] r that show ?thesis by blast
qed

subsection \<open>The shape of a run\<close>

lemma sample_collect:
  "collect_inputs (sample_env Undefined body c f tok) = Inr (sample_inputs c f)"
  by (simp add: collect_inputs_def sample_env_def sample_inputs_def bind_exn_def prDetails_def)

lemma sample_post:
  "axios_post (sample_env pr body c f tok) u b h = Inr body"
  by (simp add: sample_env_def)

lemma run_collect_fails:
  "collect_inputs E = Inl e \<Longrightarrow> run E = run_catch e"
  by (simp add: run_def run_try_def io_bind_def io_of_def)

lemma run_post_fails:
  assumes "collect_inputs E = Inr inp"
    and "axios_post E (validationEndpoint inp) (validationRequest inp) (request_headers inp) = Inl e"
  shows "run E = Info (''Calling validation endpoint: '' @ validationEndpoint inp)
               # AxiosPost (validationEndpoint inp) (validationRequest inp) (request_headers inp)
               # run_catch e"
  using assms by (simp add: run_def run_try_def io_bind_def io_of_def emit_def post_validation_def)

lemma run_malformed:
  assumes "collect_inputs E = Inr inp"
    and "axios_post E (validationEndpoint inp) (validationRequest inp) (request_headers inp) = Inr result"
    and "\<not> response_ok result"
  shows "run E = Info (''Calling validation endpoint: '' @ validationEndpoint inp)
               # AxiosPost (validationEndpoint inp) (validationRequest inp) (request_headers inp)
               # run_catch (js_error ''Invalid response format from validation API'')"
  using assms by (simp add: run_def run_try_def io_bind_def io_of_def emit_def post_validation_def)

lemma run_reported:
  assumes "collect_inputs E = Inr inp"
    and "axios_post E (validationEndpoint inp) (validationRequest inp) (request_headers inp) = Inr result"
    and "response_ok result"
  shows "run E = Info (''Calling validation endpoint: '' @ validationEndpoint inp)
               # AxiosPost (validationEndpoint inp) (validationRequest inp) (request_headers inp)
               # (case report E result of
                    (w, Inl e) \<Rightarrow> w @ run_catch e
                  | (w, Inr (invalidEvents, missingEvents)) \<Rightarrow>
                      w @ (if comment inp \<and> truthy (pull_request E)
                           then addPrReviewComments E result else [])
                        @ failure_policy E inp result invalidEvents missingEvents)"
  using assms by (simp add: run_def run_try_def io_bind_def io_of_def emit_def post_validation_def
       failure_policy_def split: prod.splits sum.splits)

lemma run_catch_quiet:
  "outputs (run_catch e) = []" "review_calls (run_catch e) = []"
  by (simp_all add: run_catch_def split: option.splits)

lemma run_catch_failed: "failed (run_catch e)"
  by (simp add: run_catch_def)

lemma publishing_quiet:
  "list_all is_publishing w \<Longrightarrow> outputs w = [] \<and> \<not> failed w"
proof (induction w)
  case Nil
  then show ?case by simp
next
  case (Cons a w)
  then show ?case by (cases a) simp_all
qed

lemma publish_try_publishing: "list_all is_publishing (fst (publish_try E result))"
  unfolding publish_try_def
  by (auto intro!: io_bind_all log_all simp: emit_def io_of_def create_review_def split: prod.splits)

lemma addPr_publishing: "list_all is_publishing (addPrReviewComments E result)"
proof -
  obtain w r where p: "publish_try E result = (w, r)" by (cases "publish_try E result")
  with publish_try_publishing [of E result] have "list_all is_publishing w" by simp
  with p show ?thesis
    by (cases r) (simp_all add: addPrReviewComments_def publish_catch_def split: option.splits)
qed

lemma addPr_emits: "addPrReviewComments E result \<noteq> []"
proof -
  have "fst (publish_try E result) \<noteq> [] \<or> isl (snd (publish_try E result))"
    unfolding publish_try_def
    by (cases "context_repo E"; cases "dot (pull_request E) ''number''";
        cases "reviewComments E result"; cases "reviewBody result";
        cases "review_event E result")
       (auto simp: emit_def io_of_def io_bind_def create_review_def split: prod.splits option.splits)
  then show ?thesis
    by (cases "publish_try E result"; cases "snd (publish_try E result)")
       (auto simp: addPrReviewComments_def publish_catch_def)
qed

lemma io_bind_io_of:
  "io_bind (io_of r) f = (case r of Inl e \<Rightarrow> ([], Inl e) | Inr a \<Rightarrow> f a)"
  by (cases r) (auto simp: io_bind_def io_of_def split: prod.splits)

lemma fail_on_invalid_off:
  "\<not> (\<not> truthy (member result ''valid'') \<and> failOnInvalid inp) \<Longrightarrow>
   fail_on_invalid E inp result i m = ([], Inr ())"
  by (auto simp: fail_on_invalid_def emit_def)

lemma fail_on_invalid_on:
  assumes "\<not> truthy (member result ''valid'')" and "failOnInvalid inp"
  shows "(\<exists>e. fail_on_invalid E inp result i m = ([], Inl e))
         \<or> (\<exists>t. fail_on_invalid E inp result i m = ([SetFailed t], Inr ()))"
  using assms
  unfolding fail_on_invalid_def Let_def io_bind_io_of emit_def
  by (simp split: sum.splits)

lemma failure_policy_failed:
  "failed (failure_policy E inp result i m)
     \<longleftrightarrow> failOnInvalid inp \<and> \<not> truthy (member result ''valid'')"
proof (cases "\<not> truthy (member result ''valid'') \<and> failOnInvalid inp")
  case True
  with fail_on_invalid_on [of result inp E i m] show ?thesis
    by (auto simp: failure_policy_def run_catch_failed)
next
  case False
  from fail_on_invalid_off [OF this] False show ?thesis
    by (auto simp: failure_policy_def)
qed

lemma failure_policy_quiet:
  "outputs (failure_policy E inp result i m) = []"
  "review_calls (failure_policy E inp result i m) = []"
proof -
  have "outputs (failure_policy E inp result i m) = []
        \<and> review_calls (failure_policy E inp result i m) = []"
  proof (cases "\<not> truthy (member result ''valid'') \<and> failOnInvalid inp")
    case True
    with fail_on_invalid_on [of result inp E i m] show ?thesis
      by (auto simp: failure_policy_def run_catch_quiet)
  next
    case False
    from fail_on_invalid_off [OF this] show ?thesis
      by (simp add: failure_policy_def)
  qed
  then show "outputs (failure_policy E inp result i m) = []"
    and "review_calls (failure_policy E inp result i m) = []"
    by simp_all
qed

subsection \<open>The run after the report\<close>

lemma report_throws:
  "unreadable E result \<longleftrightarrow> (\<exists>w e. report E result = (w, Inl e))"
  unfolding report_throws_iff [symmetric]
  by (cases "report E result"; cases "snd (report E result)") auto

lemma run_failed_char:
  "failed (run E) \<longleftrightarrow>
     (case collect_inputs E of
        Inl e \<Rightarrow> True
      | Inr inp \<Rightarrow>
         (case axios_post E (validationEndpoint inp) (validationRequest inp) (request_headers inp) of
            Inl e \<Rightarrow> True
          | Inr result \<Rightarrow>
              \<not> non_null_object result \<or> unreadable E result
              \<or> (failOnInvalid inp \<and> \<not> truthy (member result ''valid''))))"
proof (cases "collect_inputs E")
  case (Inl e)
  then show ?thesis by (simp add: run_collect_fails run_catch_failed)
next
  case c: (Inr inp)
  show ?thesis
  proof (cases "axios_post E (validationEndpoint inp) (validationRequest inp) (request_headers inp)")
    case (Inl e)
    with c show ?thesis by (simp add: run_post_fails run_catch_failed)
  next
    case p: (Inr result)
    show ?thesis
    proof (cases "response_ok result")
      case False
      with c p show ?thesis
        by (simp add: run_malformed run_catch_failed response_ok_iff)
    next
      case ok: True
      show ?thesis
      proof (cases "unreadable E result")
        case True
        then obtain w e where "report E result = (w, Inl e)"
          unfolding report_throws by blast
        with c p ok True show ?thesis
          by (simp add: run_reported failed_append run_catch_failed)
      next
        case False
        then obtain l where
          r: "report E result
              = (l @ set_outputs result, Inr (view ''invalid'' result, view ''missing'' result))"
          and l: "list_all is_log l"
          by (rule report_returns)
        from l have "\<not> failed l" by (simp add: logs_quiet)
        moreover have "\<not> failed (addPrReviewComments E result)"
          using addPr_publishing publishing_quiet by blast
        ultimately show ?thesis
          using c p ok False r
          by (simp add: run_reported failed_append set_outputs_quiet failure_policy_failed
                response_ok_iff)
      qed
    qed
  qed
qed

lemma publisher_env_irrelevant:
  "failed (run (E\<lparr>GITHUB_TOKEN := tok, createReview := cr\<rparr>)) \<longleftrightarrow> failed (run E)"
proof -
  have c: "collect_inputs (E\<lparr>GITHUB_TOKEN := tok, createReview := cr\<rparr>) = collect_inputs E"
    by (simp add: collect_inputs_def)
  have u: "unreadable (E\<lparr>GITHUB_TOKEN := tok, createReview := cr\<rparr>) result = unreadable E result"
    for result
  proof -
    have "gt_zero (E\<lparr>GITHUB_TOKEN := tok, createReview := cr\<rparr>) v = gt_zero E v" for v
      by (cases v) simp_all
    then have "implemented (E\<lparr>GITHUB_TOKEN := tok, createReview := cr\<rparr>) e
               = implemented E e" for e
      by (simp add: implemented_def has_implementation_def)
    then have "entry_unreadable (E\<lparr>GITHUB_TOKEN := tok, createReview := cr\<rparr>)
               = entry_unreadable E"
      by (intro ext) (simp add: entry_unreadable_def location_unreadable_def)
    then show ?thesis
      unfolding unreadable_def by (simp only:)
  qed
  show ?thesis
    unfolding run_failed_char c by (simp add: u split: sum.splits)
qed

lemma run_review_calls:
  assumes "review_calls (run E) \<noteq> []"
  shows "\<exists>inp. collect_inputs E = Inr inp \<and> comment inp \<and> truthy (pull_request E)"
proof (cases "collect_inputs E")
  case (Inl e)
  with assms show ?thesis by (simp add: run_collect_fails run_catch_quiet)
next
  case c: (Inr inp)
  show ?thesis
  proof (cases "axios_post E (validationEndpoint inp) (validationRequest inp) (request_headers inp)")
    case (Inl e)
    with c assms show ?thesis by (simp add: run_post_fails run_catch_quiet)
  next
    case p: (Inr result)
    show ?thesis
    proof (cases "response_ok result")
      case False
      with c p assms show ?thesis by (simp add: run_malformed run_catch_quiet)
    next
      case ok: True
      obtain w r where rep: "report E result = (w, r)" by (cases "report E result")
      show ?thesis
      proof (cases r)
        case (Inl e)
        with rep have "list_all is_log w" by (simp add: report_Inl)
        then have "review_calls w = []" by (simp add: logs_quiet)
        with c p ok rep Inl assms show ?thesis
          by (simp add: run_reported review_calls_append run_catch_quiet)
      next
        case (Inr v)
        obtain i m where v: "v = (i, m)" by (cases v)
        from report_Inr [of E result w i m] rep Inr v
        obtain l where "list_all is_log l" "w = l @ set_outputs result" by blast
        then have "review_calls w = []"
          by (simp add: review_calls_append logs_quiet set_outputs_quiet)
        with c p ok rep Inr v assms show ?thesis
          by (auto simp: run_reported review_calls_append failure_policy_quiet split: if_splits)
      qed
    qed
  qed
qed

lemma run_outputs:
  assumes "collect_inputs E = Inr inp"
    and "axios_post E (validationEndpoint inp) (validationRequest inp) (request_headers inp) = Inr result"
    and "non_null_object result" and "\<not> unreadable E result"
  shows "outputs (run E) = outputs (set_outputs result)"
proof -
  from assms(4) obtain l where
    r: "report E result
        = (l @ set_outputs result, Inr (view ''invalid'' result, view ''missing'' result))"
    and l: "list_all is_log l"
    by (rule report_returns)
  from l have "outputs l = []" by (simp add: logs_quiet)
  moreover have "outputs (addPrReviewComments E result) = []"
    using addPr_publishing publishing_quiet by blast
  ultimately show ?thesis
    using assms(1-3) r
    by (simp add: run_reported response_ok_iff outputs_append failure_policy_quiet)
qed

subsection \<open>The comments\<close>

lemma template_Inr: "template ps = Inr r \<Longrightarrow> r = concat (map piece_text ps)"
proof (induction ps arbitrary: r rule: template.induct)
  case 1
  then show ?case by simp
next
  case (2 s ps)
  from "2.prems" obtain r' where "template ps = Inr r'" and "r = s @ r'"
    unfolding template_Lit by blast
  with "2.IH" show ?case by simp
next
  case (3 v ps)
  from "3.prems" obtain s r' where "to_string v = Inr s" and "template ps = Inr r'"
    and "r = s @ r'"
    unfolding template_Sub by blast
  with "3.IH" show ?case by (simp add: text_of_def)
qed

lemma js_or_printable:
  "printable (js_or (member event ''message'') (Str d)) \<longleftrightarrow> \<not> message_unreadable event"
  by (simp add: js_or_def message_unreadable_def)

lemma js_or_text:
  "text_of (js_or (member event ''message'') (Str d))
   = (if truthy (member event ''message'') then text_of (member event ''message'') else d)"
  by (simp add: js_or_def text_of_def)

lemma dot_isl: "isl (dot v k) \<longleftrightarrow> nullish v"
  by (simp add: dot_def)

lemma invalid_comment_throws:
  "isl (invalid_comment impl event)
     \<longleftrightarrow> nullish impl \<or> \<not> printable (member event ''name'') \<or> message_unreadable event"
  unfolding invalid_comment_def bind_exn_isl dot_isl template_throws
  using js_or_printable [of event "''Event does not match tracking plan''"]
  by (auto simp: dot_def not_isl_iff [symmetric] template_throws)

lemma new_comment_throws:
  "isl (new_comment impl event)
     \<longleftrightarrow> nullish impl \<or> \<not> printable (member event ''name'') \<or> message_unreadable event"
  unfolding new_comment_def bind_exn_isl dot_isl template_throws
  using js_or_printable [of event "''Event found in codebase but not in tracking plan''"]
  by (auto simp: dot_def not_isl_iff [symmetric] template_throws)

lemma event_comments_throws:
  assumes "\<And>impl e. isl (mk impl e)
             \<longleftrightarrow> nullish impl \<or> \<not> printable (member e ''name'') \<or> message_unreadable e"
  shows "isl (event_comments mk E es) \<longleftrightarrow> list_ex (comment_unbuildable E) es"
proof (induction es)
  case Nil
  then show ?case by simp
next
  case (Cons e es)
  show ?case
  proof (cases "has_implementation E e")
    case (Inl x)
    then have "isl (has_implementation E e)" by simp
    then have "comment_unbuildable E e"
      unfolding has_implementation_throws comment_unbuildable_def by blast
    with Inl show ?thesis by simp
  next
    case (Inr present)
    then have "\<not> isl (has_implementation E e)" by simp
    then have n: "\<not> (truthy (member e ''implementation'')
         \<and> \<not> printable (member (member e ''implementation'') ''length''))"
      unfolding has_implementation_throws .
    show ?thesis
    proof (cases present)
      case False
      with Inr n have "\<not> comment_unbuildable E e"
        by (simp add: comment_unbuildable_def implemented_def)
      with Inr False Cons show ?thesis by simp
    next
      case True
      with Inr have i: "implemented E e" by (simp add: implemented_def)
      with n have c: "comment_unbuildable E e
            \<longleftrightarrow> isl (mk (index0 (member e ''implementation'')) e)"
        unfolding comment_unbuildable_def assms by blast
      show ?thesis
        using Inr True Cons c
        by (cases "mk (index0 (member e ''implementation'')) e"; cases "event_comments mk E es")
           simp_all
    qed
  qed
qed

lemma event_comments_Inr:
  "event_comments mk E es = Inr cs \<Longrightarrow>
   list_all2 (\<lambda>e c. mk (index0 (member e ''implementation'')) e = Inr c)
     (filter (implemented E) es) cs"
proof (induction es arbitrary: cs)
  case Nil
  then show ?case by simp
next
  case (Cons e es)
  show ?case
  proof (cases "has_implementation E e")
    case (Inl x)
    with Cons.prems show ?thesis by simp
  next
    case (Inr present)
    show ?thesis
    proof (cases present)
      case False
      with Inr Cons show ?thesis by (simp add: implemented_def)
    next
      case True
      with Inr Cons.prems obtain c cs' where
        "mk (index0 (member e ''implementation'')) e = Inr c"
        "event_comments mk E es = Inr cs'" "cs = c # cs'"
        by (cases "mk (index0 (member e ''implementation'')) e"; cases "event_comments mk E es")
           simp_all
      with Inr True Cons.IH [of cs'] show ?thesis by (simp add: implemented_def)
    qed
  qed
qed

lemma quoted_names_throws:
  "isl (quoted_names es) \<longleftrightarrow> list_ex (\<lambda>e. \<not> printable (member e ''name'')) es"
proof (induction es)
  case Nil
  then show ?case by simp
next
  case (Cons e es)
  have "isl (template [Lit ''`'', Sub (member e ''name''), Lit ''`''])
        \<longleftrightarrow> \<not> printable (member e ''name'')"
    unfolding template_throws by simp
  with Cons show ?case
    by (cases "template [Lit ''`'', Sub (member e ''name''), Lit ''`'']"; cases "quoted_names es")
       (simp_all del: template.simps)
qed

lemma quoted_names_Inr:
  "quoted_names es = Inr ns \<Longrightarrow>
   ns = map (\<lambda>e. ''`'' @ text_of (member e ''name'') @ ''`'') es"
proof (induction es arbitrary: ns)
  case Nil
  then show ?case by simp
next
  case (Cons e es)
  from Cons.prems obtain n ns' where
    t: "template [Lit ''`'', Sub (member e ''name''), Lit ''`''] = Inr n"
    and q: "quoted_names es = Inr ns'" and ns: "ns = n # ns'"
    by (cases "template [Lit ''`'', Sub (member e ''name''), Lit ''`'']"; cases "quoted_names es")
       (simp_all del: template.simps)
  from template_Inr [OF t] have "n = ''`'' @ text_of (member e ''name'') @ ''`''"
    by simp
  with Cons.IH [OF q] ns show ?case by simp
qed

lemma missing_comment_throws:
  "isl (missing_comment es) \<longleftrightarrow> list_ex (\<lambda>e. \<not> printable (member e ''name'')) es"
  by (simp add: missing_comment_def bind_exn_isl quoted_names_throws)

lemma readable_views:
  assumes "\<not> isl (filter_status st result)"
  shows "filter_status st' result = Inr (view st' result)"
proof -
  from assms have "\<not> isl (filter_status st' result)"
    unfolding filter_status_throws .
  then obtain evs where "filter_status st' result = Inr evs"
    by (cases "filter_status st' result") auto
  with filter_status_Inr [OF this] show ?thesis by simp
qed

lemma reviewComments_throws: "isl (reviewComments E result) \<longleftrightarrow> unbuildable E result"
proof (cases "isl (filter_status ''invalid'' result)")
  case True
  then have "isl (reviewComments E result)"
    by (simp add: reviewComments_def bind_exn_isl)
  moreover from True have "unbuildable E result"
    unfolding filter_status_throws unbuildable_def
    by (cases "member result ''events''") simp_all
  ultimately show ?thesis by simp
next
  case False
  note v = readable_views [OF False]
  from False have f: "\<not> (case member result ''events'' of
            Undefined \<Rightarrow> False | Null \<Rightarrow> False | Arr es \<Rightarrow> list_ex nullish es | _ \<Rightarrow> True)"
    unfolding filter_status_throws .
  have "isl (reviewComments E result)
        \<longleftrightarrow> list_ex (comment_unbuildable E) (view ''invalid'' result)
            \<or> list_ex (comment_unbuildable E) (view ''new'' result)
            \<or> list_ex (\<lambda>e. \<not> printable (member e ''name'')) (view ''missing'' result)"
    unfolding reviewComments_def v bind_exn_isl
      event_comments_throws [of invalid_comment, OF invalid_comment_throws]
      event_comments_throws [of new_comment, OF new_comment_throws]
    by (auto simp: not_isl_iff [symmetric] missing_comment_throws bind_exn_isl
          event_comments_throws [of invalid_comment, OF invalid_comment_throws]
          event_comments_throws [of new_comment, OF new_comment_throws])
  also have "\<dots> \<longleftrightarrow> unbuildable E result"
  proof (cases "member result ''events''")
    case (Arr es)
    with f have "\<not> list_ex nullish es" by simp
    with Arr show ?thesis
      unfolding unbuildable_def list_ex_view events_of_def
      by (simp add: list_ex_iff) blast
  qed (use f in \<open>simp_all add: unbuildable_def view_def events_of_def\<close>)
  finally show ?thesis .
qed

lemma reviewComments_Inr:
  assumes "reviewComments E result = Inr cs"
  shows "\<exists>cs1 cs2 cm. cs = cs1 @ cs2 @ cm
           \<and> list_all2 (\<lambda>e c. invalid_comment (index0 (member e ''implementation'')) e = Inr c)
               (filter (implemented E) (view ''invalid'' result)) cs1
           \<and> list_all2 (\<lambda>e c. new_comment (index0 (member e ''implementation'')) e = Inr c)
               (filter (implemented E) (view ''new'' result)) cs2
           \<and> (view ''missing'' result = [] \<and> cm = []
              \<or> view ''missing'' result \<noteq> []
                \<and> (\<exists>c. missing_comment (view ''missing'' result) = Inr c \<and> cm = [c]))"
proof -
  from assms [unfolded reviewComments_def bind_exn_Inr]
  obtain i cs1 n cs2 m where
    i: "filter_status ''invalid'' result = Inr i"
    and 1: "event_comments invalid_comment E i = Inr cs1"
    and n: "filter_status ''new'' result = Inr n"
    and 2: "event_comments new_comment E n = Inr cs2"
    and m: "filter_status ''missing'' result = Inr m"
    and c: "(if length m > 0 then bind_exn (missing_comment m) (\<lambda>c. Inr (cs1 @ cs2 @ [c]))
             else Inr (cs1 @ cs2)) = Inr cs"
    by (elim exE conjE) (rule that, assumption+)
  note vi = filter_status_Inr [OF i] and vn = filter_status_Inr [OF n]
    and vm = filter_status_Inr [OF m]
  from event_comments_Inr [OF 1] have a1:
    "list_all2 (\<lambda>e c. invalid_comment (index0 (member e ''implementation'')) e = Inr c)
               (filter (implemented E) (view ''invalid'' result)) cs1"
    unfolding vi .
  from event_comments_Inr [OF 2] have a2:
    "list_all2 (\<lambda>e c. new_comment (index0 (member e ''implementation'')) e = Inr c)
               (filter (implemented E) (view ''new'' result)) cs2"
    unfolding vn .
  show ?thesis
  proof (cases "m = []")
    case True
    with c have e: "cs = cs1 @ cs2 @ []" by simp
    from True vm have "view ''missing'' result = [] \<and> ([]::jsval list) = []" by simp
    then have d: "view ''missing'' result = [] \<and> ([]::jsval list) = []
              \<or> view ''missing'' result \<noteq> []
                \<and> (\<exists>c. missing_comment (view ''missing'' result) = Inr c \<and> [] = [c])"
      by (rule disjI1)
    from e a1 a2 d show ?thesis by (intro exI conjI)
  next
    case False
    with c have "bind_exn (missing_comment m) (\<lambda>c. Inr (cs1 @ cs2 @ [c])) = Inr cs"
      by simp
    then obtain x where x: "missing_comment m = Inr x" and e: "cs = cs1 @ cs2 @ [x]"
      unfolding bind_exn_Inr by auto
    from False vm x have "view ''missing'' result \<noteq> []
                \<and> (\<exists>c. missing_comment (view ''missing'' result) = Inr c \<and> [x] = [c])"
      by simp
    then have d: "view ''missing'' result = [] \<and> [x] = []
              \<or> view ''missing'' result \<noteq> []
                \<and> (\<exists>c. missing_comment (view ''missing'' result) = Inr c \<and> [x] = [c])"
      by (rule disjI2)
    from e a1 a2 d show ?thesis by (intro exI conjI)
  qed
qed

lemma sublist_mid: "sublist x b \<Longrightarrow> sublist x (a @ b @ c)"
  unfolding sublist_def by (metis append.assoc)

lemma sublist_join:
  "x \<in> set xs \<Longrightarrow> sublist x (join_with sep xs)"
proof (induction sep xs rule: join_with.induct)
  case (1 sep)
  then show ?case by simp
next
  case (2 sep y)
  then show ?case by simp
next
  case (3 sep y z zs)
  show ?case
  proof (cases "x = y")
    case True
    then show ?thesis by simp
  next
    case False
    with 3 have "sublist x (join_with sep (z # zs))" by simp
    from sublist_mid [OF \<open>sublist x (join_with sep (z # zs))\<close>, of "y @ sep" "[]"]
    show ?thesis by simp
  qed
qed

lemma missing_comment_Inr:
  assumes "missing_comment missingEvents = Inr c"
  shows "\<exists>b. c = Obj [(''path'', Str ''README.md''), (''line'', Num 1), (''body'', Str b)]
           \<and> list_all (\<lambda>e. sublist (''`'' @ text_of (member e ''name'') @ ''`'') b) missingEvents"
proof -
  define f where "f = (\<lambda>e. ''`'' @ text_of (member e ''name'') @ ''`'')"
  define names where "names = join_with '', '' (map f missingEvents)"
  define a where "a = warning_sign
      @ '' **Missing Events**: The following events are defined in the tracking plan but not found in the codebase:''
      @ nl @ nl"
  define z where "z = nl @ nl
      @ ''Please implement these events or remove them from the tracking plan.''"
  from assms obtain ns where q: "quoted_names missingEvents = Inr ns"
    and c: "c = Obj [(''path'', Str ''README.md''), (''line'', Num 1),
                     (''body'', Str (a @ join_with '', '' ns @ z))]"
    unfolding missing_comment_def bind_exn_Inr a_def z_def by auto
  from quoted_names_Inr [OF q] have "ns = map f missingEvents"
    unfolding f_def .
  with c have c': "c = Obj [(''path'', Str ''README.md''), (''line'', Num 1),
                     (''body'', Str (a @ names @ z))]"
    unfolding names_def by simp
  have "sublist (f e) (a @ names @ z)" if "e \<in> set missingEvents" for e
  proof -
    from that have "f e \<in> f ` set missingEvents" by (rule imageI)
    then have "f e \<in> set (map f missingEvents)" by (simp only: set_map)
    then have "sublist (f e) names"
      unfolding names_def by (rule sublist_join)
    then show ?thesis by (rule sublist_mid)
  qed
  then have "list_all (\<lambda>e. sublist (f e) (a @ names @ z)) missingEvents"
    unfolding list_all_iff by blast
  then have "list_all (\<lambda>e. sublist (''`'' @ text_of (member e ''name'') @ ''`'') (a @ names @ z))
               missingEvents"
    unfolding f_def .
  with c' show ?thesis by (intro exI conjI)
qed

lemma invalid_comment_Inr:
  assumes "invalid_comment impl event = Inr c"
  shows "(\<exists>b. c = Obj [(''path'', member impl ''path''), (''line'', member impl ''line''),
                      (''body'', Str b)])
         \<and> body_template cross_mark ''Event does not match tracking plan'' ''None specified''
             event c"
proof -
  let ?n = "text_of (member event ''name'')"
  let ?m = "text_of (js_or (member event ''message'') (Str ''Event does not match tracking plan''))"
  let ?p = "properties_or ''None specified'' event"
  let ?b = "cross_mark @ '' **Invalid Event**: `'' @ ?n @ ''`'' @ nl @ nl @ ?m @ nl @ nl
            @ ''**Required Properties**: '' @ ?p"
  from assms obtain path body where p: "dot impl ''path'' = Inr path"
    and t: "template [Lit cross_mark, Lit '' **Invalid Event**: `'',
                         Sub (member event ''name''), Lit ''`'', Lit nl, Lit nl,
                         Sub (js_or (member event ''message'')
                                    (Str ''Event does not match tracking plan'')),
                         Lit nl, Lit nl, Lit ''**Required Properties**: '',
                         Lit (properties_or ''None specified'' event)] = Inr body"
    and c: "c = Obj [(''path'', path), (''line'', member impl ''line''), (''body'', Str body)]"
    unfolding invalid_comment_def bind_exn_Inr by auto
  from p have path: "path = member impl ''path''"
    by (simp add: dot_def split: if_splits)
  from template_Inr [OF t] have body: "body = ?b"
    by simp
  have 1: "prefix cross_mark ?b" by (rule prefixI) simp
  have "sublist ?n ((cross_mark @ '' **Invalid Event**: `'') @ ?n @ (''`'' @ nl @ nl @ ?m @ nl @ nl
            @ ''**Required Properties**: '' @ ?p))" by (rule sublist_appendI)
  then have 2: "sublist ?n ?b" by simp
  have "sublist ?m ((cross_mark @ '' **Invalid Event**: `'' @ ?n @ ''`'' @ nl @ nl) @ ?m @ (nl @ nl
            @ ''**Required Properties**: '' @ ?p))" by (rule sublist_appendI)
  then have 3: "sublist ?m ?b" by simp
  have "sublist ?p ((cross_mark @ '' **Invalid Event**: `'' @ ?n @ ''`'' @ nl @ nl @ ?m @ nl @ nl
            @ ''**Required Properties**: '') @ ?p)" by (rule sublist_append_leftI)
  then have 4: "sublist ?p ?b" by simp
  have p: "?p = (if truthy (member event ''properties'')
                 then join_with '', '' (object_keys (member event ''properties''))
                 else ''None specified'')"
    by (simp add: properties_or_def property_names_def)
  have b: "member c ''body'' = Str ?b"
    unfolding c body by simp
  have "body_template cross_mark ''Event does not match tracking plan'' ''None specified'' event c"
    unfolding body_template_def b using 1 2 3 4 unfolding js_or_text p by simp
  with c path show ?thesis by blast
qed

lemma new_comment_Inr:
  assumes "new_comment impl event = Inr c"
  shows "(\<exists>b. c = Obj [(''path'', member impl ''path''), (''line'', member impl ''line''),
                      (''body'', Str b)])
         \<and> body_template new_button ''Event found in codebase but not in tracking plan''
             ''None detected'' event c"
proof -
  let ?n = "text_of (member event ''name'')"
  let ?m = "text_of (js_or (member event ''message'')
                           (Str ''Event found in codebase but not in tracking plan''))"
  let ?p = "properties_or ''None detected'' event"
  let ?b = "new_button @ '' **New Event**: `'' @ ?n @ ''`'' @ nl @ nl @ ?m @ nl @ nl
            @ ''**Properties**: '' @ ?p"
  from assms obtain path body where p: "dot impl ''path'' = Inr path"
    and t: "template [Lit new_button, Lit '' **New Event**: `'',
                         Sub (member event ''name''), Lit ''`'', Lit nl, Lit nl,
                         Sub (js_or (member event ''message'')
                                    (Str ''Event found in codebase but not in tracking plan'')),
                         Lit nl, Lit nl, Lit ''**Properties**: '',
                         Lit (properties_or ''None detected'' event)] = Inr body"
    and c: "c = Obj [(''path'', path), (''line'', member impl ''line''), (''body'', Str body)]"
    unfolding new_comment_def bind_exn_Inr by auto
  from p have path: "path = member impl ''path''"
    by (simp add: dot_def split: if_splits)
  from template_Inr [OF t] have body: "body = ?b"
    by simp
  have 1: "prefix new_button ?b" by (rule prefixI) simp
  have "sublist ?n ((new_button @ '' **New Event**: `'') @ ?n @ (''`'' @ nl @ nl @ ?m @ nl @ nl
            @ ''**Properties**: '' @ ?p))" by (rule sublist_appendI)
  then have 2: "sublist ?n ?b" by simp
  have "sublist ?m ((new_button @ '' **New Event**: `'' @ ?n @ ''`'' @ nl @ nl) @ ?m @ (nl @ nl
            @ ''**Properties**: '' @ ?p))" by (rule sublist_appendI)
  then have 3: "sublist ?m ?b" by simp
  have "sublist ?p ((new_button @ '' **New Event**: `'' @ ?n @ ''`'' @ nl @ nl @ ?m @ nl @ nl
            @ ''**Properties**: '') @ ?p)" by (rule sublist_append_leftI)
  then have 4: "sublist ?p ?b" by simp
  have p: "?p = (if truthy (member event ''properties'')
                 then join_with '', '' (object_keys (member event ''properties''))
                 else ''None detected'')"
    by (simp add: properties_or_def property_names_def)
  have b: "member c ''body'' = Str ?b"
    unfolding c body by simp
  have "body_template new_button ''Event found in codebase but not in tracking plan''
          ''None detected'' event c"
    unfolding body_template_def b using 1 2 3 4 unfolding js_or_text p by simp
  with c path show ?thesis by blast
qed

lemma has_implementation_array:
  "member event ''implementation'' = Arr locs \<Longrightarrow> has_implementation E event = Inr (locs \<noteq> [])"
  by (simp add: has_implementation_def)

lemma has_implementation_absent:
  "member event ''implementation'' \<in> {Undefined, Null, Arr []} \<Longrightarrow>
   has_implementation E event = Inr False"
  by (auto simp: has_implementation_def)

subsection \<open>The review\<close>

lemma template_append_throws:
  "isl (template (ps @ qs)) \<longleftrightarrow> isl (template ps) \<or> isl (template qs)"
  unfolding template_throws by auto

lemma reviewBody_throws: "isl (reviewBody result) \<longleftrightarrow> summary_unprintable result"
proof -
  have 1: "isl (template (if truthy (opt_member (member result ''metadata'') ''validationDuration'')
           then [Lit nl, Lit ''**Validation Duration**: '',
                 Sub (member (member result ''metadata'') ''validationDuration''), Lit ''ms'']
           else []))
        \<longleftrightarrow> truthy (opt_member (member result ''metadata'') ''validationDuration'')
         \<and> \<not> printable (member (member result ''metadata'') ''validationDuration'')"
    unfolding template_throws by simp
  have 2: "isl (template (if truthy (opt_member (member result ''metadata'') ''agentVersion'')
           then [Lit nl, Lit ''**Agent Version**: '',
                 Sub (member (member result ''metadata'') ''agentVersion'')]
           else []))
        \<longleftrightarrow> truthy (opt_member (member result ''metadata'') ''agentVersion'')
         \<and> \<not> printable (member (member result ''metadata'') ''agentVersion'')"
    unfolding template_throws by simp
  have 3: "isl (template [Lit nl]) \<longleftrightarrow> False"
    unfolding template_throws by simp
  have 0: "isl (template
       [Lit ''## AATX Tracking Plan Validation Review'', Lit nl,
         Lit ''      '', Lit nl,
         Lit ''- **Total Events**: '', Sub (summary_count result ''totalEvents''), Lit nl,
         Lit ''- **Valid Events**: '', Sub (summary_count result ''validEvents''), Lit nl,
         Lit ''- **Invalid Events**: '', Sub (summary_count result ''invalidEvents''), Lit nl,
         Lit ''- **Missing Events**: '', Sub (summary_count result ''missingEvents''), Lit nl,
         Lit ''- **New Events**: '', Sub (summary_count result ''newEvents''), Lit nl,
         Lit nl,
         Lit (if truthy (member result ''trackingPlanUpdated'')
              then check_mark @ '' Tracking plan was automatically updated with new events''
              else []),
         Lit nl,
         Lit (if \<not> truthy (member result ''valid'')
              then cross_mark @ '' Some events do not match the tracking plan''
              else check_mark @ '' All events match the tracking plan''),
         Lit nl, Lit nl])
      \<longleftrightarrow> list_ex (\<lambda>k. \<not> printable (summary_count result k))
        [''totalEvents'', ''validEvents'', ''invalidEvents'', ''missingEvents'', ''newEvents'']"
    unfolding template_throws by auto
  show ?thesis
    unfolding reviewBody_def summary_unprintable_def template_append_throws 0 1 2 3 by simp
qed

lemma review_event_throws:
  "isl (review_event E result)
     \<longleftrightarrow> \<not> printable (opt_member (member result ''summary'') ''invalidEvents'')"
  by (simp add: review_event_def bind_exn_isl gt_zero_throws)

lemma summary_review_event:
  assumes "\<not> summary_unprintable result"
  shows "\<not> isl (review_event E result)"
proof -
  from assms have "printable (js_or (opt_member (member result ''summary'') ''invalidEvents'')
                                  (Num 0))"
    by (simp add: summary_unprintable_def summary_count_def)
  then have "printable (opt_member (member result ''summary'') ''invalidEvents'')"
    by (cases "opt_member (member result ''summary'') ''invalidEvents''")
       (simp_all add: js_or_def)
  then show ?thesis by (simp add: review_event_throws)
qed

lemma review_event_cases:
  "review_event E result = Inr ev \<Longrightarrow>
   (ev = ''REQUEST_CHANGES''
      \<and> gt_zero E (opt_member (member result ''summary'') ''invalidEvents'') = Inr True)
   \<or> (ev = ''COMMENT''
      \<and> gt_zero E (opt_member (member result ''summary'') ''invalidEvents'') = Inr False)"
proof -
  assume "review_event E result = Inr ev"
  then obtain a where "gt_zero E (opt_member (member result ''summary'') ''invalidEvents'') = Inr a"
    and "ev = (if a then ''REQUEST_CHANGES'' else ''COMMENT'')"
    unfolding review_event_def bind_exn_Inr by auto
  then show ?thesis by (cases a) simp_all
qed

lemma publish_try_built:
  assumes "token_present E" and "context_repo E = Inr (owner, repo)"
    and "\<not> nullish (pull_request E)" and "reviewComments E result = Inr cs"
  shows "publish_try E result =
     (if length cs > 0 then
          io_bind (io_of (reviewBody result)) (\<lambda>body.
          io_bind (io_of (review_event E result)) (\<lambda>disposition.
          io_bind (create_review E
                     (Obj [(''owner'', owner),
                           (''repo'', repo),
                           (''pull_number'', member (pull_request E) ''number''),
                           (''body'', Str body),
                           (''event'', Str disposition),
                           (''comments'', Arr cs)])) (\<lambda>_.
          log Info [Lit ''Created PR review with '', Lit (show_nat (length cs)),
                    Lit '' comments''])))
        else emit [Info ''No review comments to add''])"
  using assms by (simp add: publish_try_def io_bind_def io_of_def dot_def)

lemma publish_catch_quiet:
  "review_calls (publish_catch e) = []" "outputs (publish_catch e) = []" "\<not> failed (publish_catch e)"
  by (simp_all add: publish_catch_def split: option.splits)

lemma publish_none:
  assumes "token_present E" and "context_repo E = Inr (owner, repo)"
    and "\<not> nullish (pull_request E)" and "reviewComments E result = Inr []"
  shows "addPrReviewComments E result = [Info ''No review comments to add'']"
  by (simp add: addPrReviewComments_def publish_try_built [OF assms] emit_def)

lemma publish_one:
  assumes "token_present E" and "context_repo E = Inr (owner, repo)"
    and "\<not> nullish (pull_request E)" and "reviewComments E result = Inr cs"
    and "cs \<noteq> []" and "reviewBody result = Inr body" and "review_event E result = Inr ev"
  shows "review_calls (addPrReviewComments E result)
         = [Obj [(''owner'', owner),
                 (''repo'', repo),
                 (''pull_number'', member (pull_request E) ''number''),
                 (''body'', Str body),
                 (''event'', Str ev),
                 (''comments'', Arr cs)]]"
proof -
  define params where "params = Obj [(''owner'', owner),
                 (''repo'', repo),
                 (''pull_number'', member (pull_request E) ''number''),
                 (''body'', Str body),
                 (''event'', Str ev),
                 (''comments'', Arr cs)]"
  have l: "log Info [Lit ''Created PR review with '', Lit (show_nat (length cs)),
                    Lit '' comments'']
           = ([Info (''Created PR review with '' @ show_nat (length cs) @ '' comments'')], Inr ())"
    by (simp add: log_def)
  have "publish_try E result
        = io_bind (create_review E params) (\<lambda>_.
          log Info [Lit ''Created PR review with '', Lit (show_nat (length cs)),
                    Lit '' comments''])"
    unfolding publish_try_built [OF assms(1-4)] params_def
    using assms(5-7) by (simp add: io_bind_io_of)
  then have "review_calls (addPrReviewComments E result) = [params]"
    unfolding addPrReviewComments_def l
    by (cases "createReview E params")
       (simp_all add: io_bind_def create_review_def review_calls_append publish_catch_quiet)
  then show ?thesis unfolding params_def .
qed

subsection \<open>Results of the data model\<close>

lemma scalar_printable: "is_scalar v \<Longrightarrow> printable v"
  by (cases v) simp_all

lemma string_printable: "is_string v \<Longrightarrow> printable v"
  by (cases v) simp_all

lemma number_printable: "is_number v \<Longrightarrow> printable v"
  by (cases v) simp_all

lemma conforming_message:
  assumes "conforming_event e"
  shows "\<not> message_unreadable e"
  using assms unfolding conforming_event_def message_unreadable_def
  by (auto simp: string_printable)

lemma conforming_first_location:
  assumes "conforming_event e" and "implemented E e"
  shows "conforming_location (index0 (member e ''implementation''))"
proof (cases "member e ''implementation''")
  case (Arr ls)
  show ?thesis
  proof (cases ls)
    case Nil
    with Arr assms(2) show ?thesis
      by (simp add: implemented_def has_implementation_def)
  next
    case (Cons l ls')
    with Arr assms(1) show ?thesis
      by (simp add: conforming_event_def)
  qed
qed (use assms in \<open>simp_all add: conforming_event_def implemented_def has_implementation_def\<close>)

lemma conforming_length:
  assumes "conforming_event e"
  shows "\<not> (truthy (member e ''implementation'')
            \<and> \<not> printable (member (member e ''implementation'') ''length''))"
  using assms
  by (cases "member e ''implementation''") (simp_all add: conforming_event_def)

lemma conforming_location_readable:
  assumes "conforming_event e"
  shows "\<not> location_unreadable E e"
proof -
  have "\<not> (nullish l \<or> \<not> printable (member l ''path'') \<or> \<not> printable (member l ''line'')
            \<or> (truthy (member l ''code'') \<and> \<not> is_string (member l ''code'')))"
    if "conforming_location l" for l
    using that
    by (cases l) (auto simp: conforming_location_def string_printable number_printable)
  with conforming_first_location [OF assms] conforming_length [OF assms]
  show ?thesis
    unfolding location_unreadable_def by blast
qed

lemma conforming_comment_buildable:
  assumes "conforming_event e"
  shows "\<not> comment_unbuildable E e"
proof -
  have "\<not> nullish l" if "conforming_location l" for l
    using that by (cases l) (simp_all add: conforming_location_def)
  moreover from assms have "printable (member e ''name'')"
    by (simp add: conforming_event_def string_printable)
  ultimately show ?thesis
    using conforming_first_location [OF assms] conforming_length [OF assms]
      conforming_message [OF assms]
    unfolding comment_unbuildable_def by blast
qed

lemma conforming_events:
  assumes "conforming_result result"
  obtains es where "member result ''events'' = Arr es" and "list_all conforming_event es"
  using assms by (cases "member result ''events''") (simp_all add: conforming_result_def)

lemma conforming_counts:
  assumes "conforming_result result"
    and "k \<in> set [''totalEvents'', ''validEvents'', ''invalidEvents'', ''missingEvents'', ''newEvents'']"
  shows "summary_count result k = member (member result ''summary'') k
         \<and> is_number (member (member result ''summary'') k)"
proof -
  from assms have n: "is_number (member (member result ''summary'') k)"
    unfolding conforming_result_def list_all_iff by blast
  moreover from assms(1) have "is_plain_object (member result ''summary'')"
    by (simp add: conforming_result_def)
  ultimately have "summary_count result k = member (member result ''summary'') k"
    by (cases "member result ''summary''"; cases "member (member result ''summary'') k")
       (simp_all add: summary_count_def opt_member_def js_or_def)
  with n show ?thesis by simp
qed

lemma conforming_counts_printable:
  assumes "conforming_result result"
  shows "\<not> list_ex (\<lambda>k. \<not> printable (summary_count result k))
        [''totalEvents'', ''validEvents'', ''invalidEvents'', ''missingEvents'', ''newEvents'']"
  unfolding list_ex_iff using conforming_counts [OF assms] number_printable by auto

lemma conforming_readable:
  assumes "conforming_result result"
  shows "\<not> unreadable E result"
proof -
  from assms obtain es where es: "member result ''events'' = Arr es"
    and all: "list_all conforming_event es"
    by (rule conforming_events)
  have "\<not> nullish e" if "e \<in> set es" for e
    using all that by (cases e) (auto simp: list_all_iff conforming_event_def)
  moreover have "\<not> entry_unreadable E e" if "e \<in> set es" for e
  proof -
    from all that have c: "conforming_event e" by (simp add: list_all_iff)
    then have "printable (member e ''name'')"
      by (simp add: conforming_event_def string_printable)
    with conforming_message [OF c] conforming_location_readable [OF c, of E]
    show ?thesis by (simp add: entry_unreadable_def)
  qed
  ultimately show ?thesis
    using conforming_counts_printable [OF assms]
    by (auto simp: unreadable_def es list_ex_iff)
qed

lemma conforming_buildable:
  assumes "conforming_result result"
  shows "\<not> unbuildable E result"
proof -
  from assms obtain es where es: "member result ''events'' = Arr es"
    and all: "list_all conforming_event es"
    by (rule conforming_events)
  have "\<not> nullish e" if "e \<in> set es" for e
    using all that by (cases e) (auto simp: list_all_iff conforming_event_def)
  moreover have "\<not> comment_unbuildable E e \<and> printable (member e ''name'')" if "e \<in> set es" for e
  proof -
    from all that have c: "conforming_event e" by (simp add: list_all_iff)
    then have "printable (member e ''name'')"
      by (simp add: conforming_event_def string_printable)
    with conforming_comment_buildable [OF c, of E] show ?thesis by simp
  qed
  ultimately show ?thesis
    by (auto simp: unbuildable_def es list_ex_iff)
qed

lemma conforming_summary:
  assumes "conforming_result result"
  shows "\<not> summary_unprintable result"
proof -
  have "\<not> (truthy (opt_member (member result ''metadata'') k)
           \<and> \<not> printable (member (member result ''metadata'') k))"
    if "member result ''metadata'' = Undefined \<or> is_scalar (member (member result ''metadata'') k)"
    for k
    using that by (auto simp: opt_member_def scalar_printable)
  moreover from assms have "member result ''metadata'' = Undefined
       \<or> is_scalar (member (member result ''metadata'') ''validationDuration'')"
    and "member result ''metadata'' = Undefined
       \<or> is_scalar (member (member result ''metadata'') ''agentVersion'')"
    unfolding conforming_result_def by blast+
  ultimately show ?thesis
    using conforming_counts_printable [OF assms]
    unfolding summary_unprintable_def by blast
qed

section \<open>The validation response\<close>

text \<open>
  Claim C3. Once the validation call has returned a body, the run is the malformed
  response failure (the announcement of the call, the call, and the failure mark with the
  message of line 63, with no log line, output or review after the call) if and only if
  the body is not a non-null object.
\<close>

theorem malformed_response_iff:
  assumes "collect_inputs E = Inr inp"
    and "axios_post E (validationEndpoint inp) (validationRequest inp) (request_headers inp)
         = Inr result"
  shows "run E = [Info (''Calling validation endpoint: '' @ validationEndpoint inp),
                  AxiosPost (validationEndpoint inp) (validationRequest inp) (request_headers inp),
                  SetFailed ''Action failed: Invalid response format from validation API'']
         \<longleftrightarrow> \<not> non_null_object result"
proof (cases "response_ok result")
  case False
  with assms show ?thesis
    by (simp add: run_malformed run_catch_def js_error_def response_ok_iff)
next
  case True
  obtain m w r where rep: "report E result = (Info m # w, r)"
    using report_starts by blast
  have "\<exists>rest. run E = Info (''Calling validation endpoint: '' @ validationEndpoint inp)
               # AxiosPost (validationEndpoint inp) (validationRequest inp) (request_headers inp)
               # Info m # rest"
    using run_reported [OF assms True] rep by (cases r) (auto split: prod.splits)
  with True show ?thesis
    by (auto simp: response_ok_iff)
qed

theorem malformed_response_iff_witness:
  "run (sample_env Undefined (Str ''oops'') True True None)
   = [Info ''Calling validation endpoint: https://api.test/api/github-action/validate'',
      AxiosPost ''https://api.test/api/github-action/validate''
        (validationRequest (sample_inputs True True)) (request_headers (sample_inputs True True)),
      SetFailed ''Action failed: Invalid response format from validation API'']"
proof -
  have post: "axios_post (sample_env Undefined (Str ''oops'') True True None)
          (validationEndpoint (sample_inputs True True))
          (validationRequest (sample_inputs True True))
          (request_headers (sample_inputs True True)) = Inr (Str ''oops'')"
    by (simp add: sample_env_def)
  show ?thesis
    using malformed_response_iff [OF sample_collect post]
    by (simp add: validationEndpoint_def sample_inputs_def)
qed

text \<open>
  Claim C10. When the validation call fails, or its body is not a non-null object, the
  run is the announcement of the call, the call and the \<^verbatim>\<open>catch\<close> block: no output is set,
  no review is sent, and nothing of the Review Publisher's environment is read, whatever
  the inputs.
\<close>

theorem validation_failure_atomic:
  assumes "collect_inputs E = Inr inp"
    and "axios_post E (validationEndpoint inp) (validationRequest inp) (request_headers inp) = r"
    and "case r of Inl e \<Rightarrow> True | Inr result \<Rightarrow> \<not> non_null_object result"
  shows "run E = [Info (''Calling validation endpoint: '' @ validationEndpoint inp),
                  AxiosPost (validationEndpoint inp) (validationRequest inp) (request_headers inp)]
                 @ run_catch (case r of
                                Inl e \<Rightarrow> e
                              | Inr result \<Rightarrow> js_error ''Invalid response format from validation API'')
         \<and> outputs (run E) = [] \<and> review_calls (run E) = []"
proof (cases r)
  case (Inl e)
  with assms show ?thesis
    by (simp add: run_post_fails run_catch_quiet)
next
  case (Inr result)
  with assms show ?thesis
    by (simp add: run_malformed response_ok_iff run_catch_quiet)
qed

theorem validation_failure_atomic_witness:
  "outputs (run (sample_env Undefined Null True True (Some ''t''))) = []
   \<and> review_calls (run (sample_env Undefined Null True True (Some ''t''))) = []"
proof -
  have post: "axios_post (sample_env Undefined Null True True (Some ''t''))
          (validationEndpoint (sample_inputs True True))
          (validationRequest (sample_inputs True True))
          (request_headers (sample_inputs True True)) = Inr Null"
    by (simp add: sample_env_def)
  have bad: "case (Inr Null :: exn + jsval) of
               Inl e \<Rightarrow> True | Inr result \<Rightarrow> \<not> non_null_object result"
    by simp
  from validation_failure_atomic [OF sample_collect post bad] show ?thesis
    by blast
qed

section \<open>The Result Reporter\<close>

text \<open>
  Claim C1. When the body is an object the reporter can read, the run sets exactly seven
  outputs, in this order: \<^verbatim>\<open>valid\<close>, \<^verbatim>\<open>total_events\<close>, \<^verbatim>\<open>valid_events\<close>, \<^verbatim>\<open>invalid_events\<close>,
  \<^verbatim>\<open>missing_events\<close>, \<^verbatim>\<open>new_events\<close> and \<^verbatim>\<open>tracking_plan_updated\<close>, whatever the Review
  Publisher and the failure policy do afterwards. A count that is missing is set to 0 and a
  missing \<^verbatim>\<open>trackingPlanUpdated\<close> to false. \<^verbatim>\<open>valid\<close> is set to \<^verbatim>\<open>result.valid\<close> as
  read (line 135 has no default): when the body has no \<^verbatim>\<open>valid\<close>, the output is
  \<^verbatim>\<open>undefined\<close>, not false.
\<close>

theorem outputs_set:
  assumes "collect_inputs E = Inr inp"
    and "axios_post E (validationEndpoint inp) (validationRequest inp) (request_headers inp) = Inr result"
    and "non_null_object result" and "\<not> unreadable E result"
  shows "outputs (run E)
         = [(''valid'', member result ''valid''),
            (''total_events'', js_or (opt_member (member result ''summary'') ''totalEvents'') (Num 0)),
            (''valid_events'', js_or (opt_member (member result ''summary'') ''validEvents'') (Num 0)),
            (''invalid_events'', js_or (opt_member (member result ''summary'') ''invalidEvents'') (Num 0)),
            (''missing_events'', js_or (opt_member (member result ''summary'') ''missingEvents'') (Num 0)),
            (''new_events'', js_or (opt_member (member result ''summary'') ''newEvents'') (Num 0)),
            (''tracking_plan_updated'', js_or (member result ''trackingPlanUpdated'') (Bool False))]
       \<and> (\<forall>k. nullish (opt_member (member result ''summary'') k) \<longrightarrow>
              js_or (opt_member (member result ''summary'') k) (Num 0) = Num 0)
       \<and> (nullish (member result ''trackingPlanUpdated'') \<longrightarrow>
              js_or (member result ''trackingPlanUpdated'') (Bool False) = Bool False)
       \<and> (\<forall>kvs. result = Obj kvs \<and> map_of kvs ''valid'' = None \<longrightarrow>
              member result ''valid'' = Undefined)"
proof -
  have "js_or v d = d" if "nullish v" for v d
    using that by (cases v) (simp_all add: js_or_def)
  then show ?thesis
    using run_outputs [OF assms] by (auto simp: set_outputs_def summary_count_def)
qed

theorem outputs_set_witness:
  "outputs (run (sample_env Undefined (Obj []) False False None))
   = [(''valid'', Undefined), (''total_events'', Num 0), (''valid_events'', Num 0),
      (''invalid_events'', Num 0), (''missing_events'', Num 0), (''new_events'', Num 0),
      (''tracking_plan_updated'', Bool False)]"
proof -
  have ok: "non_null_object (Obj [])" by simp
  have rd: "\<not> unreadable (sample_env Undefined (Obj []) False False None) (Obj [])"
    by (simp add: unreadable_def summary_count_def opt_member_def js_or_def)
  from outputs_set [OF sample_collect sample_post ok rd] show ?thesis
    by (simp add: js_or_def opt_member_def)
qed

section \<open>The outcome of a run\<close>

text \<open>
  Claim C2, as amended. The run is marked failed exactly when the inputs cannot be
  collected, or the validation call fails, or its body is not a non-null object, or the
  body is a non-null object that the reporter cannot read (\<open>unreadable\<close>: the reporter
  throws on it, and only on it), or \<^verbatim>\<open>fail-on-invalid\<close> is true and \<^verbatim>\<open>result.valid\<close> is
  falsy. Nothing of the Review Publisher is among the causes, and the mark is the same
  whatever the token is and whatever the hosting service answers to the review; with
  \<^verbatim>\<open>fail-on-invalid\<close> false, a falsy \<^verbatim>\<open>result.valid\<close> alone does not fail the run.
\<close>

theorem run_failed_exactly:
  "(failed (run E) \<longleftrightarrow>
     (case collect_inputs E of
        Inl e \<Rightarrow> True
      | Inr inp \<Rightarrow>
         (case axios_post E (validationEndpoint inp) (validationRequest inp) (request_headers inp) of
            Inl e \<Rightarrow> True
          | Inr result \<Rightarrow>
              \<not> non_null_object result \<or> unreadable E result
              \<or> (failOnInvalid inp \<and> \<not> truthy (member result ''valid'')))))
   \<and> (\<forall>result. unreadable E result \<longleftrightarrow> (\<exists>w e. report E result = (w, Inl e)))
   \<and> (\<forall>tok cr. failed (run (E\<lparr>GITHUB_TOKEN := tok, createReview := cr\<rparr>))
                  \<longleftrightarrow> failed (run E))"
  using run_failed_char [of E] publisher_env_irrelevant [of _ _ E] report_throws [of E]
  by (intro conjI allI)

theorem run_failed_exactly_witness:
  "\<not> failed (run (sample_env Undefined (sample_result [sample_event ''A'' ''invalid'' []])
                    True False None))"
proof -
  have "\<not> unreadable (sample_env Undefined (sample_result [sample_event ''A'' ''invalid'' []])
                    True False None) (sample_result [sample_event ''A'' ''invalid'' []])"
    by (simp add: unreadable_def sample_result_def sample_event_def entry_unreadable_def
          location_unreadable_def message_unreadable_def implemented_def
          has_implementation_def summary_count_def opt_member_def js_or_def)
  then show ?thesis
    using conjunct1 [OF run_failed_exactly
        [of "sample_env Undefined (sample_result [sample_event ''A'' ''invalid'' []])
                    True False None"]]
    by (simp add: sample_collect sample_post sample_result_def sample_inputs_def)
qed

text \<open>
  The claim as the specification states it has three causes only. A body that is a
  non-null object with \<^verbatim>\<open>events: 5\<close> fails the run (\<^verbatim>\<open>result.events?.filter\<close> is not a
  function, line 79) although the inputs were collected, the call returned, the body is a
  non-null object, \<^verbatim>\<open>valid\<close> is true and \<^verbatim>\<open>fail-on-invalid\<close> is false.
\<close>

theorem failure_causes_counterexample:
  "failed (run (sample_env Undefined (Obj [(''valid'', Bool True), (''events'', Num 5)])
                  False False None))
   \<and> collect_inputs (sample_env Undefined (Obj [(''valid'', Bool True), (''events'', Num 5)])
                  False False None) = Inr (sample_inputs False False)
   \<and> axios_post (sample_env Undefined (Obj [(''valid'', Bool True), (''events'', Num 5)])
                  False False None)
        (validationEndpoint (sample_inputs False False))
        (validationRequest (sample_inputs False False))
        (request_headers (sample_inputs False False))
      = Inr (Obj [(''valid'', Bool True), (''events'', Num 5)])
   \<and> non_null_object (Obj [(''valid'', Bool True), (''events'', Num 5)])
   \<and> truthy (member (Obj [(''valid'', Bool True), (''events'', Num 5)]) ''valid'')
   \<and> \<not> failOnInvalid (sample_inputs False False)"
proof -
  have "unreadable (sample_env Undefined (Obj [(''valid'', Bool True), (''events'', Num 5)])
                  False False None) (Obj [(''valid'', Bool True), (''events'', Num 5)])"
    by (simp add: unreadable_def)
  then have "failed (run (sample_env Undefined (Obj [(''valid'', Bool True), (''events'', Num 5)])
                  False False None))"
    by (simp add: run_failed_char sample_collect sample_post)
  then show ?thesis
    by (simp add: sample_collect sample_post sample_inputs_def)
qed

text \<open>
  A name that does not convert to a string is such a cause too: with the body
  \<^verbatim>\<open>{valid: true, events: [{name: {toString: 1}, status: 'missing'}]}\<close> the template of line
  105 throws after the header of the missing events is logged; no output is set and the
  run is marked failed.
\<close>

lemma unprintable_name_fails:
  "run (sample_env Undefined
          (Obj [(''valid'', Bool True),
                (''events'', Arr [Obj [(''name'', Obj [(''toString'', Num 1)]),
                                       (''status'', Str ''missing'')]])])
          False False None)
   = [Info ''Calling validation endpoint: https://api.test/api/github-action/validate'',
      AxiosPost ''https://api.test/api/github-action/validate''
        (validationRequest (sample_inputs False False))
        (request_headers (sample_inputs False False)),
      Info ''Validation completed with success'',
      Info ''Total events: 0'',
      Info ''Valid events: 0'',
      Info ''Invalid events: 0'',
      Info ''Missing events: 0'',
      Info ''New events: 0'',
      Warning (nl @ warning_sign @ '' MISSING EVENTS (1):''),
      SetFailed ''Action failed: Cannot convert object to primitive value'']"
proof -
  let ?body = "Obj [(''valid'', Bool True),
                (''events'', Arr [Obj [(''name'', Obj [(''toString'', Num 1)]),
                                       (''status'', Str ''missing'')]])]"
  let ?E = "sample_env Undefined ?body False False None"
  have ok: "response_ok ?body" by (simp add: response_ok_def)
  have rep: "report ?E ?body
     = ([Info ''Validation completed with success'',
         Info ''Total events: 0'',
         Info ''Valid events: 0'',
         Info ''Invalid events: 0'',
         Info ''Missing events: 0'',
         Info ''New events: 0'',
         Warning (nl @ warning_sign @ '' MISSING EVENTS (1):'')],
        Inl (js_error ''Cannot convert object to primitive value''))"
    by (simp add: report_def log_summary_def log_def io_bind_def io_of_def emit_def
          summary_count_def opt_member_def js_or_def show_int_def show_nat.simps [of 0]
          show_nat.simps [of "Suc 0"] digit_char_def
          log_invalid_events_def log_missing_events_def log_new_events_def log_events_def
          filter_status_def bind_exn_def dot_def log_missing_event_def)
  show ?thesis
    unfolding run_reported [OF sample_collect sample_post ok] rep
    by (simp add: run_catch_def js_error_def validationEndpoint_def sample_inputs_def)
qed

text \<open>
  Claim C4, as amended. A run is one of five: the inputs cannot be collected; the
  validation call fails; its body is not a non-null object; the reporter throws on the
  body; the reporter returns. In the first four the run ends with the \<^verbatim>\<open>catch\<close> block of
  \<^verbatim>\<open>run\<close> and the Review Publisher is not invoked, whatever the options. In the fifth
  (line 144 is reached) the run goes on with the effects of the publisher if \<^verbatim>\<open>comment\<close> is
  true and the payload has a pull request, with none of them otherwise, and then with the
  failure policy; the publisher always has an effect, so the two cases differ. A run that
  sends a review has \<^verbatim>\<open>comment\<close> true and a pull request; a run whose trigger is not a pull
  request sends none.
\<close>

theorem publisher_gate:
  "(collect_inputs E = Inl collect_error \<longrightarrow> run E = run_catch collect_error)
   \<and> (collect_inputs E = Inr inp
      \<and> axios_post E (validationEndpoint inp) (validationRequest inp) (request_headers inp)
          = Inl post_error
      \<longrightarrow> run E = Info (''Calling validation endpoint: '' @ validationEndpoint inp)
               # AxiosPost (validationEndpoint inp) (validationRequest inp) (request_headers inp)
               # run_catch post_error)
   \<and> (collect_inputs E = Inr inp
      \<and> axios_post E (validationEndpoint inp) (validationRequest inp) (request_headers inp)
          = Inr result
      \<and> \<not> non_null_object result
      \<longrightarrow> run E = Info (''Calling validation endpoint: '' @ validationEndpoint inp)
               # AxiosPost (validationEndpoint inp) (validationRequest inp) (request_headers inp)
               # run_catch (js_error ''Invalid response format from validation API''))
   \<and> (collect_inputs E = Inr inp
      \<and> axios_post E (validationEndpoint inp) (validationRequest inp) (request_headers inp)
          = Inr result
      \<and> non_null_object result
      \<and> report E result = (w, Inl report_error)
      \<longrightarrow> run E = Info (''Calling validation endpoint: '' @ validationEndpoint inp)
               # AxiosPost (validationEndpoint inp) (validationRequest inp) (request_headers inp)
               # w @ run_catch report_error)
   \<and> (collect_inputs E = Inr inp
      \<and> axios_post E (validationEndpoint inp) (validationRequest inp) (request_headers inp)
          = Inr result
      \<and> non_null_object result
      \<and> report E result = (w, Inr (invalidEvents, missingEvents))
      \<longrightarrow> run E = Info (''Calling validation endpoint: '' @ validationEndpoint inp)
               # AxiosPost (validationEndpoint inp) (validationRequest inp) (request_headers inp)
               # w
               @ (if comment inp \<and> truthy (pull_request E)
                  then addPrReviewComments E result else [])
               @ failure_policy E inp result invalidEvents missingEvents)
   \<and> addPrReviewComments E result \<noteq> []
   \<and> (review_calls (run E) \<noteq> [] \<longrightarrow>
        (\<exists>inp. collect_inputs E = Inr inp \<and> comment inp \<and> truthy (pull_request E)))
   \<and> (\<not> truthy (pull_request E) \<longrightarrow> review_calls (run E) = [])"
  (is "?collect \<and> ?post \<and> ?malformed \<and> ?thrown \<and> ?reached \<and> ?effect \<and> ?calls \<and> ?trigger")
proof -
  have 1: ?collect
    by (simp add: run_collect_fails)
  have 2: ?post
    by (simp add: run_post_fails)
  have 3: ?malformed
    by (simp add: run_malformed response_ok_iff)
  have 4: ?thrown
    by (simp add: run_reported response_ok_iff)
  have 5: ?reached
    by (simp add: run_reported response_ok_iff)
  have 6: ?effect
    by (rule addPr_emits)
  have 7: ?calls
    using run_review_calls [of E] by (intro impI)
  have 8: ?trigger
    using run_review_calls [of E] by blast
  from 1 2 3 4 5 6 7 8 show ?thesis by (intro conjI)
qed

theorem publisher_gate_witness:
  "review_calls (run (sample_env Undefined
                        (sample_result [sample_event ''A'' ''invalid'' [sample_location]])
                        True False (Some ''t''))) = []"
proof -
  have "\<not> truthy (pull_request (sample_env Undefined
                        (sample_result [sample_event ''A'' ''invalid'' [sample_location]])
                        True False (Some ''t'')))"
    by (simp add: sample_env_def)
  with publisher_gate [of "sample_env Undefined
                        (sample_result [sample_event ''A'' ''invalid'' [sample_location]])
                        True False (Some ''t'')"]
  show ?thesis by blast
qed

text \<open>
  The claim as the specification states it has the publisher invoked in every run in
  which \<^verbatim>\<open>comment\<close> is true and the trigger is a pull request. In this run both hold, and
  the validation service answers with the status 500: the run ends in the \<^verbatim>\<open>catch\<close> block
  of \<^verbatim>\<open>run\<close> and line 144 is not reached. The token is not set, so the publisher, had it
  been invoked, would have logged the warning of line 181; the run has no such line.
\<close>

theorem publisher_gate_counterexample:
  "collect_inputs failing_env = Inr (sample_pr_inputs True False)
   \<and> comment (sample_pr_inputs True False)
   \<and> truthy (pull_request failing_env)
   \<and> run failing_env
       = [Info ''Calling validation endpoint: https://api.test/api/github-action/validate'',
          AxiosPost ''https://api.test/api/github-action/validate''
            (validationRequest (sample_pr_inputs True False))
            (request_headers (sample_pr_inputs True False)),
          SetFailed ''Action failed: Request failed with status code 500'',
          ErrorLog ''Response status: 500'',
          ErrorLog (''Response data: {'' @ [CHR 0x22] @ ''error'' @ [CHR 0x22] @ '':''
                    @ [CHR 0x22] @ ''bad request'' @ [CHR 0x22] @ ''}'')]
   \<and> addPrReviewComments failing_env Null
       = [Warning ''GITHUB_TOKEN not available, skipping PR review comments'']
   \<and> Warning ''GITHUB_TOKEN not available, skipping PR review comments''
       \<notin> set (run failing_env)"
proof -
  have c: "collect_inputs failing_env = Inr (sample_pr_inputs True False)"
    by (simp add: collect_inputs_def failing_env_def sample_env_def sample_pr_inputs_def
          sample_inputs_def bind_exn_def prDetails_def sample_pr_def dot_def)
  have p: "axios_post failing_env (validationEndpoint (sample_pr_inputs True False))
             (validationRequest (sample_pr_inputs True False))
             (request_headers (sample_pr_inputs True False))
           = Inl \<lparr>message = ''Request failed with status code 500'',
                  response = Some (500, Obj [(''error'', Str ''bad request'')])\<rparr>"
    by (simp add: failing_env_def)
  have r: "run failing_env
       = [Info ''Calling validation endpoint: https://api.test/api/github-action/validate'',
          AxiosPost ''https://api.test/api/github-action/validate''
            (validationRequest (sample_pr_inputs True False))
            (request_headers (sample_pr_inputs True False)),
          SetFailed ''Action failed: Request failed with status code 500'',
          ErrorLog ''Response status: 500'',
          ErrorLog (''Response data: {'' @ [CHR 0x22] @ ''error'' @ [CHR 0x22] @ '':''
                    @ [CHR 0x22] @ ''bad request'' @ [CHR 0x22] @ ''}'')]"
    unfolding run_post_fails [OF c p]
    by (simp add: run_catch_def validationEndpoint_def sample_pr_inputs_def sample_inputs_def
          show_int_def show_nat.simps [of 500] show_nat.simps [of 50] show_nat.simps [of 5]
          digit_char_def stringify_text_def json_quote_def json_escape_def)
  have t: "addPrReviewComments failing_env Null
       = [Warning ''GITHUB_TOKEN not available, skipping PR review comments'']"
    by (simp add: addPrReviewComments_def publish_try_def token_present_def failing_env_def
          sample_env_def emit_def)
  have g: "comment (sample_pr_inputs True False) \<and> truthy (pull_request failing_env)"
    by (simp add: sample_pr_inputs_def sample_inputs_def failing_env_def sample_env_def
          sample_pr_def)
  from c g r t show ?thesis by simp
qed

section \<open>The Review Publisher\<close>

text \<open>
  Claim C5. When the token is not in the environment (or is empty), the Review Publisher
  logs one warning and does nothing else: it sends no review and does not mark the run
  failed.
\<close>

theorem no_token_soft_degrade:
  assumes "\<not> token_present E"
  shows "addPrReviewComments E result
           = [Warning ''GITHUB_TOKEN not available, skipping PR review comments'']
         \<and> review_calls (addPrReviewComments E result) = []
         \<and> \<not> failed (addPrReviewComments E result)"
  using assms by (simp add: addPrReviewComments_def publish_try_def emit_def)

theorem no_token_soft_degrade_witness:
  "addPrReviewComments (sample_env (Obj [(''number'', Num 7)]) (Obj []) True False None) (Obj [])
     = [Warning ''GITHUB_TOKEN not available, skipping PR review comments'']"
proof -
  have "\<not> token_present (sample_env (Obj [(''number'', Num 7)]) (Obj []) True False None)"
    by (simp add: token_present_def sample_env_def)
  from no_token_soft_degrade [OF this] show ?thesis by simp
qed

subsection \<open>The comments on the events\<close>

lemma reviewComments_built:
  assumes "\<not> unbuildable E result"
  obtains cs where "reviewComments E result = Inr cs"
  using assms unfolding reviewComments_throws [symmetric]
  by (cases "reviewComments E result") simp_all

text \<open>
  Claim C6. For a result the comments can be built from (every result of the data model
  is one), the comments are: one comment for each invalid event with an implementation,
  then one for each new event with an implementation, each built from the event's first
  location, then the comment on the missing events if there are any. An event whose
  \<^verbatim>\<open>implementation\<close> is a non-empty array has one, and its first location is the first
  element; an event without \<^verbatim>\<open>implementation\<close>, or with an empty one, has none. The comment
  carries the path and line of the location, and its body starts with the marker of the
  kind and contains the name of the event, its message or the default text of the kind,
  and its property names joined by commas or the none marker of the kind.
\<close>

theorem review_comments_per_event:
  "(\<not> unbuildable E result \<longrightarrow>
      (\<exists>cs1 cs2 cm. reviewComments E result = Inr (cs1 @ cs2 @ cm)
         \<and> list_all2 (\<lambda>e c. invalid_comment (index0 (member e ''implementation'')) e = Inr c)
             (filter (implemented E) (view ''invalid'' result)) cs1
         \<and> list_all2 (\<lambda>e c. new_comment (index0 (member e ''implementation'')) e = Inr c)
             (filter (implemented E) (view ''new'' result)) cs2
         \<and> (view ''missing'' result = [] \<and> cm = []
            \<or> view ''missing'' result \<noteq> []
              \<and> (\<exists>c. missing_comment (view ''missing'' result) = Inr c \<and> cm = [c]))))
   \<and> (conforming_result result \<longrightarrow> \<not> unbuildable E result)
   \<and> (\<forall>event l locs. member event ''implementation'' = Arr (l # locs) \<longrightarrow>
          implemented E event \<and> index0 (member event ''implementation'') = l)
   \<and> (\<forall>event. member event ''implementation'' \<in> {Undefined, Null, Arr []} \<longrightarrow>
          \<not> implemented E event)
   \<and> (\<forall>event impl c. invalid_comment impl event = Inr c \<longrightarrow>
          (\<exists>b. c = Obj [(''path'', member impl ''path''), (''line'', member impl ''line''),
                        (''body'', Str b)])
          \<and> body_template cross_mark ''Event does not match tracking plan'' ''None specified''
              event c)
   \<and> (\<forall>event impl c. new_comment impl event = Inr c \<longrightarrow>
          (\<exists>b. c = Obj [(''path'', member impl ''path''), (''line'', member impl ''line''),
                        (''body'', Str b)])
          \<and> body_template new_button ''Event found in codebase but not in tracking plan''
              ''None detected'' event c)"
  (is "?built \<and> ?model \<and> ?first \<and> ?none \<and> ?invalid \<and> ?new")
proof -
  have 1: ?built
  proof
    assume "\<not> unbuildable E result"
    then obtain cs where cs: "reviewComments E result = Inr cs"
      by (rule reviewComments_built)
    from reviewComments_Inr [OF cs]
    show "\<exists>cs1 cs2 cm. reviewComments E result = Inr (cs1 @ cs2 @ cm)
         \<and> list_all2 (\<lambda>e c. invalid_comment (index0 (member e ''implementation'')) e = Inr c)
             (filter (implemented E) (view ''invalid'' result)) cs1
         \<and> list_all2 (\<lambda>e c. new_comment (index0 (member e ''implementation'')) e = Inr c)
             (filter (implemented E) (view ''new'' result)) cs2
         \<and> (view ''missing'' result = [] \<and> cm = []
            \<or> view ''missing'' result \<noteq> []
              \<and> (\<exists>c. missing_comment (view ''missing'' result) = Inr c \<and> cm = [c]))"
      unfolding cs by simp
  qed
  have 2: ?model
    using conforming_buildable [of result E] by blast
  have 3: ?first
    by (simp add: implemented_def has_implementation_array)
  have 4: ?none
    using has_implementation_absent [of _ E] by (simp add: implemented_def)
  have 5: ?invalid
    using invalid_comment_Inr by blast
  have 6: ?new
    using new_comment_Inr by blast
  from 1 2 3 4 5 6 show ?thesis by (intro conjI)
qed

lemma sample_implemented:
  "implemented E (sample_event n st locs) \<longleftrightarrow> locs \<noteq> []"
  by (simp add: implemented_def has_implementation_def sample_event_def)

lemma sample_first_location:
  "index0 (member (sample_event n st (l # locs)) ''implementation'') = l"
  by (simp add: sample_event_def)

lemma sample_invalid_comment:
  "invalid_comment sample_location (sample_event n ''invalid'' locs)
   = Inr (Obj [(''path'', Str ''a.js''), (''line'', Num 10),
               (''body'', Str (cross_mark @ '' **Invalid Event**: `'' @ n @ ''`'' @ nl @ nl
                               @ ''Event does not match tracking plan'' @ nl @ nl
                               @ ''**Required Properties**: None specified''))])"
  by (simp add: invalid_comment_def sample_location_def sample_event_def dot_def bind_exn_def
        js_or_def properties_or_def)

lemma sample_new_comment:
  "new_comment sample_location (sample_event n ''new'' locs)
   = Inr (Obj [(''path'', Str ''a.js''), (''line'', Num 10),
               (''body'', Str (new_button @ '' **New Event**: `'' @ n @ ''`'' @ nl @ nl
                               @ ''Event found in codebase but not in tracking plan'' @ nl @ nl
                               @ ''**Properties**: None detected''))])"
  by (simp add: new_comment_def sample_location_def sample_event_def dot_def bind_exn_def
        js_or_def properties_or_def)

lemma sample_buildable:
  fixes es :: "(string \<times> string \<times> unit list) list"
  shows "\<not> unbuildable E
           (sample_result (map (\<lambda>(n, st, locs). sample_event n st (map (\<lambda>u. sample_location) locs))
                             es))"
proof -
  have "\<not> comment_unbuildable E (sample_event n st (map (\<lambda>u. sample_location) locs))"
    for n st and locs :: "unit list"
    by (cases locs)
       (simp_all add: comment_unbuildable_def sample_event_def implemented_def
          has_implementation_def message_unreadable_def sample_location_def)
  moreover have "\<not> nullish (sample_event n st locs)" "printable (member (sample_event n st locs) ''name'')"
    for n st locs
    by (simp_all add: sample_event_def)
  ultimately show ?thesis
    by (auto simp: unbuildable_def sample_result_def list_ex_iff)
qed

theorem review_comments_per_event_witness:
  "reviewComments (sample_env sample_pr (Obj []) True False (Some ''t''))
     (sample_result [sample_event ''A'' ''invalid'' [sample_location],
                     sample_event ''B'' ''invalid'' [],
                     sample_event ''C'' ''new'' [sample_location, sample_location],
                     sample_event ''D'' ''valid'' [sample_location]])
   = Inr [Obj [(''path'', Str ''a.js''), (''line'', Num 10),
               (''body'', Str (cross_mark @ '' **Invalid Event**: `A`'' @ nl @ nl
                               @ ''Event does not match tracking plan'' @ nl @ nl
                               @ ''**Required Properties**: None specified''))],
          Obj [(''path'', Str ''a.js''), (''line'', Num 10),
               (''body'', Str (new_button @ '' **New Event**: `C`'' @ nl @ nl
                               @ ''Event found in codebase but not in tracking plan'' @ nl @ nl
                               @ ''**Properties**: None detected''))]]"
proof -
  let ?E = "sample_env sample_pr (Obj []) True False (Some ''t'')"
  let ?r = "sample_result [sample_event ''A'' ''invalid'' [sample_location],
                     sample_event ''B'' ''invalid'' [],
                     sample_event ''C'' ''new'' [sample_location, sample_location],
                     sample_event ''D'' ''valid'' [sample_location]]"
  have nb: "\<not> unbuildable ?E ?r"
    using sample_buildable [of ?E "[(''A'', ''invalid'', [()]), (''B'', ''invalid'', []),
                                     (''C'', ''new'', [(), ()]), (''D'', ''valid'', [()])]"]
    by simp
  have vi: "filter (implemented ?E) (view ''invalid'' ?r)
            = [sample_event ''A'' ''invalid'' [sample_location]]"
    and vn: "filter (implemented ?E) (view ''new'' ?r)
            = [sample_event ''C'' ''new'' [sample_location, sample_location]]"
    and vm: "view ''missing'' ?r = []"
    by (simp_all add: view_def events_of_def sample_result_def sample_implemented)
       (simp_all add: sample_event_def)
  from conjunct1 [OF review_comments_per_event [of ?E ?r], THEN mp, OF nb]
  obtain cs1 cs2 cm where rc: "reviewComments ?E ?r = Inr (cs1 @ cs2 @ cm)"
    and 1: "list_all2 (\<lambda>e c. invalid_comment (index0 (member e ''implementation'')) e = Inr c)
             (filter (implemented ?E) (view ''invalid'' ?r)) cs1"
    and 2: "list_all2 (\<lambda>e c. new_comment (index0 (member e ''implementation'')) e = Inr c)
             (filter (implemented ?E) (view ''new'' ?r)) cs2"
    and 3: "view ''missing'' ?r = [] \<and> cm = []
            \<or> view ''missing'' ?r \<noteq> []
              \<and> (\<exists>c. missing_comment (view ''missing'' ?r) = Inr c \<and> cm = [c])"
    by (elim exE conjE) (rule that, assumption+)
  from 1 have c1: "cs1 = [Obj [(''path'', Str ''a.js''), (''line'', Num 10),
               (''body'', Str (cross_mark @ '' **Invalid Event**: `A`'' @ nl @ nl
                               @ ''Event does not match tracking plan'' @ nl @ nl
                               @ ''**Required Properties**: None specified''))]]"
    unfolding vi by (simp add: list_all2_Cons1 sample_first_location sample_invalid_comment)
  from 2 have c2: "cs2 = [Obj [(''path'', Str ''a.js''), (''line'', Num 10),
               (''body'', Str (new_button @ '' **New Event**: `C`'' @ nl @ nl
                               @ ''Event found in codebase but not in tracking plan'' @ nl @ nl
                               @ ''**Properties**: None detected''))]]"
    unfolding vn by (simp add: list_all2_Cons1 sample_first_location sample_new_comment)
  from 3 vm have c3: "cm = []" by simp
  show ?thesis unfolding rc c1 c2 c3 by simp
qed

text \<open>
  Claim C7. For a result the comments can be built from (every result of the data model
  is one) that has at least one missing event, the comments end with one comment for all
  the missing events, at line 1 of \<^verbatim>\<open>README.md\<close>, whose body contains the name of every
  missing event between backquotes; the comments before it are those of the invalid and
  the new events, one for each of them that has an implementation. Without a missing
  event there is no such comment. Three missing events and no other event give that one
  comment alone.
\<close>

theorem missing_events_one_comment:
  "(\<not> unbuildable E result \<and> view ''missing'' result \<noteq> [] \<longrightarrow>
      (\<exists>cs1 cs2 b.
         reviewComments E result
           = Inr (cs1 @ cs2
                  @ [Obj [(''path'', Str ''README.md''), (''line'', Num 1), (''body'', Str b)]])
         \<and> list_all2 (\<lambda>e c. invalid_comment (index0 (member e ''implementation'')) e = Inr c)
             (filter (implemented E) (view ''invalid'' result)) cs1
         \<and> list_all2 (\<lambda>e c. new_comment (index0 (member e ''implementation'')) e = Inr c)
             (filter (implemented E) (view ''new'' result)) cs2
         \<and> list_all (\<lambda>e. sublist (''`'' @ text_of (member e ''name'') @ ''`'') b)
             (view ''missing'' result)))
   \<and> (\<not> unbuildable E result \<and> view ''missing'' result = [] \<longrightarrow>
      (\<exists>cs1 cs2.
         reviewComments E result = Inr (cs1 @ cs2)
         \<and> list_all2 (\<lambda>e c. invalid_comment (index0 (member e ''implementation'')) e = Inr c)
             (filter (implemented E) (view ''invalid'' result)) cs1
         \<and> list_all2 (\<lambda>e c. new_comment (index0 (member e ''implementation'')) e = Inr c)
             (filter (implemented E) (view ''new'' result)) cs2))
   \<and> (conforming_result result \<longrightarrow> \<not> unbuildable E result)"
  (is "?some \<and> ?no \<and> ?model")
proof -
  have built: "\<exists>cs1 cs2 cm. reviewComments E result = Inr (cs1 @ cs2 @ cm)
         \<and> list_all2 (\<lambda>e c. invalid_comment (index0 (member e ''implementation'')) e = Inr c)
             (filter (implemented E) (view ''invalid'' result)) cs1
         \<and> list_all2 (\<lambda>e c. new_comment (index0 (member e ''implementation'')) e = Inr c)
             (filter (implemented E) (view ''new'' result)) cs2
         \<and> (view ''missing'' result = [] \<and> cm = []
            \<or> view ''missing'' result \<noteq> []
              \<and> (\<exists>c. missing_comment (view ''missing'' result) = Inr c \<and> cm = [c]))"
    if "\<not> unbuildable E result"
  proof -
    from that obtain cs where cs: "reviewComments E result = Inr cs"
      by (rule reviewComments_built)
    from reviewComments_Inr [OF cs] show ?thesis unfolding cs by simp
  qed
  have 1: ?some
  proof
    assume a: "\<not> unbuildable E result \<and> view ''missing'' result \<noteq> []"
    with built obtain cs1 cs2 cm where rc: "reviewComments E result = Inr (cs1 @ cs2 @ cm)"
      and l1: "list_all2 (\<lambda>e c. invalid_comment (index0 (member e ''implementation'')) e = Inr c)
             (filter (implemented E) (view ''invalid'' result)) cs1"
      and l2: "list_all2 (\<lambda>e c. new_comment (index0 (member e ''implementation'')) e = Inr c)
             (filter (implemented E) (view ''new'' result)) cs2"
      and m: "view ''missing'' result = [] \<and> cm = []
            \<or> view ''missing'' result \<noteq> []
              \<and> (\<exists>c. missing_comment (view ''missing'' result) = Inr c \<and> cm = [c])"
      by blast
    from m a obtain c where c: "missing_comment (view ''missing'' result) = Inr c"
      and cm: "cm = [c]"
      by blast
    from missing_comment_Inr [OF c] obtain b where
      b: "c = Obj [(''path'', Str ''README.md''), (''line'', Num 1), (''body'', Str b)]"
      and all: "list_all (\<lambda>e. sublist (''`'' @ text_of (member e ''name'') @ ''`'') b)
                  (view ''missing'' result)"
      by blast
    from rc cm b have "reviewComments E result
           = Inr (cs1 @ cs2
                  @ [Obj [(''path'', Str ''README.md''), (''line'', Num 1), (''body'', Str b)]])"
      by simp
    with l1 l2 all
    show "\<exists>cs1 cs2 b.
         reviewComments E result
           = Inr (cs1 @ cs2
                  @ [Obj [(''path'', Str ''README.md''), (''line'', Num 1), (''body'', Str b)]])
         \<and> list_all2 (\<lambda>e c. invalid_comment (index0 (member e ''implementation'')) e = Inr c)
             (filter (implemented E) (view ''invalid'' result)) cs1
         \<and> list_all2 (\<lambda>e c. new_comment (index0 (member e ''implementation'')) e = Inr c)
             (filter (implemented E) (view ''new'' result)) cs2
         \<and> list_all (\<lambda>e. sublist (''`'' @ text_of (member e ''name'') @ ''`'') b)
             (view ''missing'' result)"
      by (intro exI conjI)
  qed
  have 2: ?no
  proof
    assume a: "\<not> unbuildable E result \<and> view ''missing'' result = []"
    with built obtain cs1 cs2 cm where rc: "reviewComments E result = Inr (cs1 @ cs2 @ cm)"
      and l1: "list_all2 (\<lambda>e c. invalid_comment (index0 (member e ''implementation'')) e = Inr c)
             (filter (implemented E) (view ''invalid'' result)) cs1"
      and l2: "list_all2 (\<lambda>e c. new_comment (index0 (member e ''implementation'')) e = Inr c)
             (filter (implemented E) (view ''new'' result)) cs2"
      and m: "view ''missing'' result = [] \<and> cm = []
            \<or> view ''missing'' result \<noteq> []
              \<and> (\<exists>c. missing_comment (view ''missing'' result) = Inr c \<and> cm = [c])"
      by blast
    from m a have "cm = []" by blast
    with rc have "reviewComments E result = Inr (cs1 @ cs2)" by simp
    with l1 l2
    show "\<exists>cs1 cs2.
         reviewComments E result = Inr (cs1 @ cs2)
         \<and> list_all2 (\<lambda>e c. invalid_comment (index0 (member e ''implementation'')) e = Inr c)
             (filter (implemented E) (view ''invalid'' result)) cs1
         \<and> list_all2 (\<lambda>e c. new_comment (index0 (member e ''implementation'')) e = Inr c)
             (filter (implemented E) (view ''new'' result)) cs2"
      by (intro exI conjI)
  qed
  have 3: ?model
    using conforming_buildable [of result E] by blast
  from 1 2 3 show ?thesis by (intro conjI)
qed

lemma three_missing_views:
  "view ''invalid'' three_missing = []"
  "view ''new'' three_missing = []"
  "view ''missing'' three_missing
     = [sample_event ''A'' ''missing'' [], sample_event ''B'' ''missing'' [],
        sample_event ''C'' ''missing'' []]"
  by (simp_all add: view_def events_of_def three_missing_def sample_result_def sample_event_def)

theorem missing_events_one_comment_witness:
  "\<exists>b. reviewComments (sample_env sample_pr (Obj []) True False (Some ''t'')) three_missing
          = Inr [Obj [(''path'', Str ''README.md''), (''line'', Num 1), (''body'', Str b)]]
      \<and> sublist ''`A`'' b \<and> sublist ''`B`'' b \<and> sublist ''`C`'' b"
proof -
  let ?E = "sample_env sample_pr (Obj []) True False (Some ''t'')"
  have nb: "\<not> unbuildable ?E three_missing"
    using sample_buildable [of ?E "[(''A'', ''missing'', []), (''B'', ''missing'', []),
                                     (''C'', ''missing'', [])]"]
    by (simp add: three_missing_def)
  have ne: "view ''missing'' three_missing \<noteq> []"
    by (simp add: three_missing_views)
  from conjunct1 [OF missing_events_one_comment [of ?E three_missing], THEN mp, OF conjI,
      OF nb ne]
  obtain cs1 cs2 b where
    rc: "reviewComments ?E three_missing
           = Inr (cs1 @ cs2
                  @ [Obj [(''path'', Str ''README.md''), (''line'', Num 1), (''body'', Str b)]])"
    and 1: "list_all2 (\<lambda>e c. invalid_comment (index0 (member e ''implementation'')) e = Inr c)
             (filter (implemented ?E) (view ''invalid'' three_missing)) cs1"
    and 2: "list_all2 (\<lambda>e c. new_comment (index0 (member e ''implementation'')) e = Inr c)
             (filter (implemented ?E) (view ''new'' three_missing)) cs2"
    and 3: "list_all (\<lambda>e. sublist (''`'' @ text_of (member e ''name'') @ ''`'') b)
             (view ''missing'' three_missing)"
    by (elim exE conjE) (rule that, assumption+)
  from 1 2 have "cs1 = []" "cs2 = []" by (simp_all add: three_missing_views)
  with rc have r: "reviewComments ?E three_missing
          = Inr [Obj [(''path'', Str ''README.md''), (''line'', Num 1), (''body'', Str b)]]"
    by simp
  from 3 have s: "sublist ''`A`'' b" "sublist ''`B`'' b" "sublist ''`C`'' b"
    by (simp_all add: three_missing_views sample_event_def text_of_def)
  from r s show ?thesis by (intro exI conjI)
qed

text \<open>
  Claim C8. With a token, the repository and the pull request at hand, and a result the
  comments can be built from: if there is no comment the publisher logs that and does
  nothing else; otherwise, the summary of the review being written (it can be for every
  result of the data model), the publisher sends exactly one review, holding the summary
  and the comments, also when the hosting service rejects it. The event of the review is
  \<^verbatim>\<open>REQUEST_CHANGES\<close> if \<^verbatim>\<open>result.summary?.invalidEvents > 0\<close> and \<^verbatim>\<open>COMMENT\<close> if not: for
  a count that is a number \<open>n\<close>, \<^verbatim>\<open>REQUEST_CHANGES\<close> exactly when \<open>0 < n\<close>, and \<^verbatim>\<open>COMMENT\<close>
  when the count is absent.
\<close>

theorem review_call_disposition:
  assumes "token_present E" and "context_repo E = Inr (owner, repo)"
    and "\<not> nullish (pull_request E)" and "\<not> unbuildable E result"
  shows "\<exists>cs. reviewComments E result = Inr cs
       \<and> (cs = [] \<longrightarrow> addPrReviewComments E result = [Info ''No review comments to add''])
       \<and> (cs \<noteq> [] \<and> \<not> summary_unprintable result \<longrightarrow>
            (\<exists>body ev.
               reviewBody result = Inr body \<and> review_event E result = Inr ev
               \<and> review_calls (addPrReviewComments E result)
                   = [Obj [(''owner'', owner),
                           (''repo'', repo),
                           (''pull_number'', member (pull_request E) ''number''),
                           (''body'', Str body),
                           (''event'', Str ev),
                           (''comments'', Arr cs)]]
               \<and> (ev = ''REQUEST_CHANGES''
                    \<and> gt_zero E (opt_member (member result ''summary'') ''invalidEvents'')
                        = Inr True
                  \<or> ev = ''COMMENT''
                    \<and> gt_zero E (opt_member (member result ''summary'') ''invalidEvents'')
                        = Inr False)))
       \<and> (\<forall>n. opt_member (member result ''summary'') ''invalidEvents'' = Num n \<longrightarrow>
              review_event E result = Inr (if 0 < n then ''REQUEST_CHANGES'' else ''COMMENT''))
       \<and> (nullish (opt_member (member result ''summary'') ''invalidEvents'') \<longrightarrow>
              review_event E result = Inr ''COMMENT'')
       \<and> (conforming_result result \<longrightarrow> \<not> unbuildable E result \<and> \<not> summary_unprintable result)"
proof -
  from assms(4) obtain cs where cs: "reviewComments E result = Inr cs"
    by (rule reviewComments_built)
  have 1: "cs = [] \<longrightarrow> addPrReviewComments E result = [Info ''No review comments to add'']"
    using publish_none [OF assms(1-3)] cs by blast
  have 2: "cs \<noteq> [] \<and> \<not> summary_unprintable result \<longrightarrow>
            (\<exists>body ev.
               reviewBody result = Inr body \<and> review_event E result = Inr ev
               \<and> review_calls (addPrReviewComments E result)
                   = [Obj [(''owner'', owner),
                           (''repo'', repo),
                           (''pull_number'', member (pull_request E) ''number''),
                           (''body'', Str body),
                           (''event'', Str ev),
                           (''comments'', Arr cs)]]
               \<and> (ev = ''REQUEST_CHANGES''
                    \<and> gt_zero E (opt_member (member result ''summary'') ''invalidEvents'')
                        = Inr True
                  \<or> ev = ''COMMENT''
                    \<and> gt_zero E (opt_member (member result ''summary'') ''invalidEvents'')
                        = Inr False))"
  proof
    assume a: "cs \<noteq> [] \<and> \<not> summary_unprintable result"
    then have "\<not> isl (reviewBody result)" by (simp add: reviewBody_throws)
    then obtain body where body: "reviewBody result = Inr body"
      by (cases "reviewBody result") simp_all
    from a have "\<not> isl (review_event E result)" by (simp add: summary_review_event)
    then obtain ev where ev: "review_event E result = Inr ev"
      by (cases "review_event E result") simp_all
    from a have ne: "cs \<noteq> []" by simp
    note call = publish_one [OF assms(1-3) cs ne body ev]
    note disposition = review_event_cases [OF ev]
    from body ev call disposition
    show "\<exists>body ev.
               reviewBody result = Inr body \<and> review_event E result = Inr ev
               \<and> review_calls (addPrReviewComments E result)
                   = [Obj [(''owner'', owner),
                           (''repo'', repo),
                           (''pull_number'', member (pull_request E) ''number''),
                           (''body'', Str body),
                           (''event'', Str ev),
                           (''comments'', Arr cs)]]
               \<and> (ev = ''REQUEST_CHANGES''
                    \<and> gt_zero E (opt_member (member result ''summary'') ''invalidEvents'')
                        = Inr True
                  \<or> ev = ''COMMENT''
                    \<and> gt_zero E (opt_member (member result ''summary'') ''invalidEvents'')
                        = Inr False)"
      by (intro exI conjI)
  qed
  have 3: "\<forall>n. opt_member (member result ''summary'') ''invalidEvents'' = Num n \<longrightarrow>
              review_event E result = Inr (if 0 < n then ''REQUEST_CHANGES'' else ''COMMENT'')"
    by (simp add: review_event_def bind_exn_def)
  have 4: "nullish (opt_member (member result ''summary'') ''invalidEvents'') \<longrightarrow>
              review_event E result = Inr ''COMMENT''"
    by (cases "opt_member (member result ''summary'') ''invalidEvents''")
       (simp_all add: review_event_def bind_exn_def)
  have 5: "conforming_result result \<longrightarrow> \<not> unbuildable E result \<and> \<not> summary_unprintable result"
    using conforming_buildable [of result E] conforming_summary [of result] by blast
  from cs 1 2 3 4 5 show ?thesis by (intro exI conjI)
qed

theorem review_call_disposition_witness:
  "\<exists>body. review_calls (addPrReviewComments (sample_env sample_pr (Obj []) True False (Some ''t''))
                   (sample_result [sample_event ''A'' ''invalid'' [sample_location]]))
   = [Obj [(''owner'', Str ''o''),
           (''repo'', Str ''r''),
           (''pull_number'', Num 7),
           (''body'', Str body),
           (''event'', Str ''REQUEST_CHANGES''),
           (''comments'',
              Arr [Obj [(''path'', Str ''a.js''), (''line'', Num 10),
                        (''body'', Str (cross_mark @ '' **Invalid Event**: `A`'' @ nl @ nl
                               @ ''Event does not match tracking plan'' @ nl @ nl
                               @ ''**Required Properties**: None specified''))]])]]"
proof -
  let ?E = "sample_env sample_pr (Obj []) True False (Some ''t'')"
  let ?r = "sample_result [sample_event ''A'' ''invalid'' [sample_location]]"
  let ?c = "Obj [(''path'', Str ''a.js''), (''line'', Num 10),
                        (''body'', Str (cross_mark @ '' **Invalid Event**: `A`'' @ nl @ nl
                               @ ''Event does not match tracking plan'' @ nl @ nl
                               @ ''**Required Properties**: None specified''))]"
  have tp: "token_present ?E"
    by (simp add: token_present_def sample_env_def)
  have cr: "context_repo ?E = Inr (Str ''o'', Str ''r'')"
    by (simp add: sample_env_def)
  have pr: "\<not> nullish (pull_request ?E)" "member (pull_request ?E) ''number'' = Num 7"
    by (simp_all add: sample_env_def sample_pr_def)
  have nb: "\<not> unbuildable ?E ?r"
    using sample_buildable [of ?E "[(''A'', ''invalid'', [()])]"] by simp
  have rc: "reviewComments ?E ?r = Inr [?c]"
    by (simp add: reviewComments_def filter_status_def sample_result_def bind_exn_def dot_def)
       (simp add: sample_event_def has_implementation_def
          sample_invalid_comment [of "''A''" "[sample_location]", unfolded sample_event_def])
  have su: "\<not> summary_unprintable ?r"
    by (simp add: summary_unprintable_def summary_count_def sample_result_def opt_member_def
          js_or_def)
  have n: "opt_member (member ?r ''summary'') ''invalidEvents'' = Num 1"
    by (simp add: sample_result_def opt_member_def)
  from review_call_disposition [OF tp cr pr(1) nb] obtain cs where
    cs: "reviewComments ?E ?r = Inr cs"
    and call: "cs \<noteq> [] \<and> \<not> summary_unprintable ?r \<longrightarrow>
            (\<exists>body ev.
               reviewBody ?r = Inr body \<and> review_event ?E ?r = Inr ev
               \<and> review_calls (addPrReviewComments ?E ?r)
                   = [Obj [(''owner'', Str ''o''),
                           (''repo'', Str ''r''),
                           (''pull_number'', member (pull_request ?E) ''number''),
                           (''body'', Str body),
                           (''event'', Str ev),
                           (''comments'', Arr cs)]]
               \<and> (ev = ''REQUEST_CHANGES''
                    \<and> gt_zero ?E (opt_member (member ?r ''summary'') ''invalidEvents'')
                        = Inr True
                  \<or> ev = ''COMMENT''
                    \<and> gt_zero ?E (opt_member (member ?r ''summary'') ''invalidEvents'')
                        = Inr False))"
    and ev: "\<forall>n. opt_member (member ?r ''summary'') ''invalidEvents'' = Num n \<longrightarrow>
              review_event ?E ?r = Inr (if 0 < n then ''REQUEST_CHANGES'' else ''COMMENT'')"
    by (elim exE conjE) (rule that, assumption+)
  from cs rc have c: "cs = [?c]" by simp
  from ev n have e: "review_event ?E ?r = Inr ''REQUEST_CHANGES''" by simp
  from call c su obtain body ev' where "review_event ?E ?r = Inr ev'"
    and r: "review_calls (addPrReviewComments ?E ?r)
                   = [Obj [(''owner'', Str ''o''),
                           (''repo'', Str ''r''),
                           (''pull_number'', member (pull_request ?E) ''number''),
                           (''body'', Str body),
                           (''event'', Str ev'),
                           (''comments'', Arr cs)]]"
    by auto
  with e have "ev' = ''REQUEST_CHANGES''" by simp
  with r c pr(2) show ?thesis by (intro exI) simp
qed

text \<open>
  Outside the data model the comments may not be built: a new event with a location and
  the message \<^verbatim>\<open>{toString: 1}\<close> passes the reporter, which does not log the message of a
  new event, and the template of line 214 throws on it. The publisher then logs the
  warning of its \<^verbatim>\<open>catch\<close> block and sends no review.
\<close>

lemma unprintable_message_not_published:
  "\<not> unreadable (sample_env sample_pr (Obj []) True False (Some ''t''))
       (sample_result [Obj [(''name'', Str ''N''), (''status'', Str ''new''),
                            (''message'', Obj [(''toString'', Num 1)]),
                            (''implementation'', Arr [sample_location])]])
   \<and> unbuildable (sample_env sample_pr (Obj []) True False (Some ''t''))
       (sample_result [Obj [(''name'', Str ''N''), (''status'', Str ''new''),
                            (''message'', Obj [(''toString'', Num 1)]),
                            (''implementation'', Arr [sample_location])]])
   \<and> addPrReviewComments (sample_env sample_pr (Obj []) True False (Some ''t''))
       (sample_result [Obj [(''name'', Str ''N''), (''status'', Str ''new''),
                            (''message'', Obj [(''toString'', Num 1)]),
                            (''implementation'', Arr [sample_location])]])
     = [Warning ''Failed to add PR review comments: Cannot convert object to primitive value'']"
proof -
  let ?E = "sample_env sample_pr (Obj []) True False (Some ''t'')"
  let ?e = "Obj [(''name'', Str ''N''), (''status'', Str ''new''),
                            (''message'', Obj [(''toString'', Num 1)]),
                            (''implementation'', Arr [sample_location])]"
  have i: "implemented ?E ?e"
    by (simp add: implemented_def has_implementation_def)
  have 1: "\<not> unreadable ?E (sample_result [?e])"
    by (simp add: unreadable_def sample_result_def entry_unreadable_def i
          location_unreadable_def sample_location_def summary_count_def opt_member_def js_or_def)
  have 2: "unbuildable ?E (sample_result [?e])"
    by (simp add: unbuildable_def sample_result_def comment_unbuildable_def i
          message_unreadable_def)
  have rc: "reviewComments ?E (sample_result [?e])
            = Inl (js_error ''Cannot convert object to primitive value'')"
    by (simp add: reviewComments_def filter_status_def sample_result_def bind_exn_def dot_def
          has_implementation_def new_comment_def sample_location_def js_or_def)
  have tp: "token_present ?E"
    by (simp add: token_present_def sample_env_def)
  have cr: "context_repo ?E = Inr (Str ''o'', Str ''r'')"
    by (simp add: sample_env_def)
  have pn: "dot (pull_request ?E) ''number'' = Inr (Num 7)"
    by (simp add: sample_env_def sample_pr_def dot_def)
  have 3: "addPrReviewComments ?E (sample_result [?e])
     = [Warning ''Failed to add PR review comments: Cannot convert object to primitive value'']"
    by (simp add: addPrReviewComments_def publish_try_def tp cr pn rc io_bind_def io_of_def
          publish_catch_def js_error_def)
  from 1 2 3 show ?thesis by (intro conjI)
qed

section \<open>The partition of the events\<close>

lemma closed_statuses:
  "list_all (\<lambda>e. member e ''status''
                    \<in> {Str ''valid'', Str ''invalid'', Str ''missing'', Str ''new''}) es \<Longrightarrow>
   mset (filter (\<lambda>e. member e ''status'' = Str ''invalid'') es)
   + mset (filter (\<lambda>e. member e ''status'' = Str ''missing'') es)
   + mset (filter (\<lambda>e. member e ''status'' = Str ''new'') es)
   + mset (filter (\<lambda>e. member e ''status'' = Str ''valid'') es) = mset es"
  by (induction es) auto

lemma status_views:
  "mset (filter (\<lambda>e. member e ''status'' = Str ''invalid'') es)
   + mset (filter (\<lambda>e. member e ''status'' = Str ''missing'') es)
   + mset (filter (\<lambda>e. member e ''status'' = Str ''new'') es)
   = mset (filter (\<lambda>e. member e ''status'' \<in> {Str ''invalid'', Str ''missing'', Str ''new''}) es)"
  by (induction es) auto

lemma readable_filters:
  assumes "\<not> unreadable E result"
  shows "filter_status st result = Inr (view st result)"
proof -
  from assms have "\<not> isl (filter_status st result)"
    unfolding filter_status_throws unreadable_def
    by (cases "member result ''events''") simp_all
  then show ?thesis by (rule readable_views)
qed

text \<open>
  Claim C9. For a result the reporter reads (every result of the data model is one), each
  of the filters of the reporter (lines 79, 101 and 116) returns the view of its status,
  and the reporter returns the invalid and the missing view; among its log lines, the
  entries (the lines that announce an event) are exactly one for each invalid event, then
  one for each missing event, then one for each new event, each with the index of the
  event in its view and its name: no other event has an entry. Whenever the publisher
  builds its comments, they are those of the invalid view, then those of the new view,
  then the one of the missing view. The three views are pairwise disjoint, together they
  hold each event with one of the three statuses exactly once, and no event with status
  \<^verbatim>\<open>valid\<close> is in any of them. When every status is one of the four, the three views and
  the valid events hold each event exactly once.
\<close>

theorem status_partition:
  "(\<not> unreadable E result \<longrightarrow>
      filter_status ''invalid'' result = Inr (view ''invalid'' result)
      \<and> filter_status ''missing'' result = Inr (view ''missing'' result)
      \<and> filter_status ''new'' result = Inr (view ''new'' result)
      \<and> (\<exists>l. report E result
                = (l @ set_outputs result, Inr (view ''invalid'' result, view ''missing'' result))
             \<and> list_all is_log l
             \<and> filter is_entry l
                 = entry_lines Warning (view ''invalid'' result)
                   @ entry_lines Warning (view ''missing'' result)
                   @ entry_lines Info (view ''new'' result)))
   \<and> (\<forall>cs. reviewComments E result = Inr cs \<longrightarrow>
        (\<exists>cs1 cs2 cm. cs = cs1 @ cs2 @ cm
           \<and> list_all2 (\<lambda>e c. invalid_comment (index0 (member e ''implementation'')) e = Inr c)
               (filter (implemented E) (view ''invalid'' result)) cs1
           \<and> list_all2 (\<lambda>e c. new_comment (index0 (member e ''implementation'')) e = Inr c)
               (filter (implemented E) (view ''new'' result)) cs2
           \<and> (view ''missing'' result = [] \<and> cm = []
              \<or> view ''missing'' result \<noteq> []
                \<and> (\<exists>c. missing_comment (view ''missing'' result) = Inr c \<and> cm = [c]))))
   \<and> set (view ''invalid'' result) \<inter> set (view ''missing'' result) = {}
   \<and> set (view ''invalid'' result) \<inter> set (view ''new'' result) = {}
   \<and> set (view ''missing'' result) \<inter> set (view ''new'' result) = {}
   \<and> mset (view ''invalid'' result) + mset (view ''missing'' result)
       + mset (view ''new'' result)
       = mset (filter (\<lambda>e. member e ''status'' \<in> {Str ''invalid'', Str ''missing'', Str ''new''})
                 (events_of result))
   \<and> (\<forall>e. member e ''status'' = Str ''valid'' \<longrightarrow>
          e \<notin> set (view ''invalid'' result) \<and> e \<notin> set (view ''missing'' result)
          \<and> e \<notin> set (view ''new'' result))
   \<and> (list_all (\<lambda>e. member e ''status''
                        \<in> {Str ''valid'', Str ''invalid'', Str ''missing'', Str ''new''})
         (events_of result) \<longrightarrow>
        mset (view ''invalid'' result) + mset (view ''missing'' result)
        + mset (view ''new'' result) + mset (view ''valid'' result)
        = mset (events_of result))
   \<and> (conforming_result result \<longrightarrow> \<not> unreadable E result)"
  (is "?reporter \<and> ?publisher \<and> ?d1 \<and> ?d2 \<and> ?d3 \<and> ?total \<and> ?valid \<and> ?closed \<and> ?model")
proof -
  have 1: ?reporter
  proof
    assume rd: "\<not> unreadable E result"
    then obtain l where
      "report E result
       = (l @ set_outputs result, Inr (view ''invalid'' result, view ''missing'' result))"
      and "list_all is_log l"
      and "filter is_entry l
           = entry_lines Warning (view ''invalid'' result)
             @ entry_lines Warning (view ''missing'' result)
             @ entry_lines Info (view ''new'' result)"
      by (rule report_returns)
    then have "\<exists>l. report E result
                = (l @ set_outputs result, Inr (view ''invalid'' result, view ''missing'' result))
             \<and> list_all is_log l
             \<and> filter is_entry l
                 = entry_lines Warning (view ''invalid'' result)
                   @ entry_lines Warning (view ''missing'' result)
                   @ entry_lines Info (view ''new'' result)"
      by (intro exI conjI)
    with readable_filters [OF rd, of "''invalid''"] readable_filters [OF rd, of "''missing''"]
      readable_filters [OF rd, of "''new''"]
    show "filter_status ''invalid'' result = Inr (view ''invalid'' result)
      \<and> filter_status ''missing'' result = Inr (view ''missing'' result)
      \<and> filter_status ''new'' result = Inr (view ''new'' result)
      \<and> (\<exists>l. report E result
                = (l @ set_outputs result, Inr (view ''invalid'' result, view ''missing'' result))
             \<and> list_all is_log l
             \<and> filter is_entry l
                 = entry_lines Warning (view ''invalid'' result)
                   @ entry_lines Warning (view ''missing'' result)
                   @ entry_lines Info (view ''new'' result))"
      by (intro conjI)
  qed
  have 2: ?publisher
    using reviewComments_Inr [of E result] by (intro allI impI)
  have 3: ?d1 and 4: ?d2 and 5: ?d3
    unfolding view_def by auto
  have 6: ?total
    unfolding view_def by (rule status_views)
  have 7: ?valid
    unfolding view_def by simp
  have 8: ?closed
    using closed_statuses [of "events_of result"] unfolding view_def by (intro impI)
  have 9: ?model
    using conforming_readable [of result E] by (intro impI)
  from 1 2 3 4 5 6 7 8 9 show ?thesis by (intro conjI)
qed

theorem status_partition_witness:
  "\<exists>l. report (sample_env Undefined (Obj []) False False None)
          (sample_result [sample_event ''A'' ''invalid'' [],
                          sample_event ''B'' ''valid'' [],
                          sample_event ''C'' ''new'' [],
                          sample_event ''D'' ''missing'' [],
                          sample_event ''E'' ''invalid'' []])
        = (l @ set_outputs
                 (sample_result [sample_event ''A'' ''invalid'' [],
                                 sample_event ''B'' ''valid'' [],
                                 sample_event ''C'' ''new'' [],
                                 sample_event ''D'' ''missing'' [],
                                 sample_event ''E'' ''invalid'' []]),
           Inr ([sample_event ''A'' ''invalid'' [], sample_event ''E'' ''invalid'' []],
                [sample_event ''D'' ''missing'' []]))
      \<and> filter is_entry l
          = [Warning (nl @ ''1. Event: A''), Warning (nl @ ''2. Event: E''),
             Warning (nl @ ''1. Event: D''), Info (nl @ ''1. Event: C'')]"
proof -
  let ?E = "sample_env Undefined (Obj []) False False None"
  let ?r = "sample_result [sample_event ''A'' ''invalid'' [],
                          sample_event ''B'' ''valid'' [],
                          sample_event ''C'' ''new'' [],
                          sample_event ''D'' ''missing'' [],
                          sample_event ''E'' ''invalid'' []]"
  have rd: "\<not> unreadable ?E ?r"
    by (simp add: unreadable_def sample_result_def sample_event_def entry_unreadable_def
          location_unreadable_def message_unreadable_def implemented_def
          has_implementation_def summary_count_def opt_member_def js_or_def)
  have v: "view ''invalid'' ?r = [sample_event ''A'' ''invalid'' [], sample_event ''E'' ''invalid'' []]"
    "view ''missing'' ?r = [sample_event ''D'' ''missing'' []]"
    "view ''new'' ?r = [sample_event ''C'' ''new'' []]"
    by (simp_all add: view_def events_of_def sample_result_def sample_event_def)
  have n: "text_of (member (sample_event n st locs) ''name'') = n" for n st locs
    by (simp add: text_of_def sample_event_def)
  have e: "entry_lines Warning (view ''invalid'' ?r)
           = [Warning (nl @ ''1. Event: A''), Warning (nl @ ''2. Event: E'')]"
    "entry_lines Warning (view ''missing'' ?r) = [Warning (nl @ ''1. Event: D'')]"
    "entry_lines Info (view ''new'' ?r) = [Info (nl @ ''1. Event: C'')]"
    unfolding v
    by (simp_all add: entry_lines_def n show_nat.simps [of "Suc 0"] show_nat.simps [of 2]
          show_nat.simps [of "Suc (Suc 0)"] digit_char_def)
  from conjunct1 [OF status_partition [of ?E ?r], THEN mp, OF rd]
  obtain l where "report ?E ?r
                = (l @ set_outputs ?r, Inr (view ''invalid'' ?r, view ''missing'' ?r))"
    and "filter is_entry l
                 = entry_lines Warning (view ''invalid'' ?r)
                   @ entry_lines Warning (view ''missing'' ?r)
                   @ entry_lines Info (view ''new'' ?r)"
    by (elim exE conjE) (rule that, assumption+)
  then have "report ?E ?r
        = (l @ set_outputs ?r,
           Inr ([sample_event ''A'' ''invalid'' [], sample_event ''E'' ''invalid'' []],
                [sample_event ''D'' ''missing'' []]))"
    and "filter is_entry l
          = [Warning (nl @ ''1. Event: A''), Warning (nl @ ''2. Event: E''),
             Warning (nl @ ''1. Event: D''), Info (nl @ ''1. Event: C'')]"
    unfolding e unfolding v by simp_all
  then show ?thesis by (intro exI conjI)
qed

section \<open>Runs on results of the data model\<close>

text \<open>
  For a body of the data model, the causes of failure are those the specification lists:
  once the inputs are collected and the call has returned such a body, the run is marked
  failed exactly when \<^verbatim>\<open>fail-on-invalid\<close> is true and \<^verbatim>\<open>valid\<close> is false, and it sets the seven
  outputs, \<^verbatim>\<open>valid\<close> included, to the values of the body.
\<close>

theorem conforming_run:
  assumes "collect_inputs E = Inr inp"
    and "axios_post E (validationEndpoint inp) (validationRequest inp) (request_headers inp)
         = Inr result"
    and "conforming_result result"
  shows "(failed (run E) \<longleftrightarrow> failOnInvalid inp \<and> member result ''valid'' = Bool False)
       \<and> outputs (run E)
           = [(''valid'', member result ''valid''),
              (''total_events'', member (member result ''summary'') ''totalEvents''),
              (''valid_events'', member (member result ''summary'') ''validEvents''),
              (''invalid_events'', member (member result ''summary'') ''invalidEvents''),
              (''missing_events'', member (member result ''summary'') ''missingEvents''),
              (''new_events'', member (member result ''summary'') ''newEvents''),
              (''tracking_plan_updated'', member result ''trackingPlanUpdated'')]"
proof -
  from assms(3) have obj: "non_null_object result"
    by (cases result) (simp_all add: conforming_result_def)
  note rd = conforming_readable [OF assms(3), of E]
  from assms(3) obtain b where b: "member result ''valid'' = Bool b"
    by (cases "member result ''valid''") (simp_all add: conforming_result_def)
  from assms(3) obtain t where t: "member result ''trackingPlanUpdated'' = Bool t"
    by (cases "member result ''trackingPlanUpdated''") (simp_all add: conforming_result_def)
  have counts:
    "summary_count result ''totalEvents'' = member (member result ''summary'') ''totalEvents''"
    "summary_count result ''validEvents'' = member (member result ''summary'') ''validEvents''"
    "summary_count result ''invalidEvents'' = member (member result ''summary'') ''invalidEvents''"
    "summary_count result ''missingEvents'' = member (member result ''summary'') ''missingEvents''"
    "summary_count result ''newEvents'' = member (member result ''summary'') ''newEvents''"
    using conforming_counts [OF assms(3)] by simp_all
  have 1: "failed (run E) \<longleftrightarrow> failOnInvalid inp \<and> member result ''valid'' = Bool False"
    unfolding run_failed_char using assms(1,2) obj rd b by auto
  have 2: "outputs (run E) = outputs (set_outputs result)"
    using assms(1,2) obj rd by (rule run_outputs)
  show ?thesis
    unfolding 2 using 1 by (simp add: set_outputs_def counts t js_or_def)
qed

theorem conforming_run_witness:
  "failed (run (sample_env Undefined conforming_sample True True None))
   \<and> outputs (run (sample_env Undefined conforming_sample True True None))
       = [(''valid'', Bool False), (''total_events'', Num 1), (''valid_events'', Num 0),
          (''invalid_events'', Num 1), (''missing_events'', Num 0), (''new_events'', Num 0),
          (''tracking_plan_updated'', Bool False)]"
proof -
  have c: "conforming_result conforming_sample"
    by (simp add: conforming_result_def conforming_sample_def conforming_event_def
          conforming_location_def)
  from conforming_run [OF sample_collect sample_post c] show ?thesis
    by (simp add: conforming_sample_def sample_inputs_def)
qed

end
